theory Spec2Isabelle
  imports Complex_Main "HOL-Library.Word" "HOL-Library.Multiset"
begin

section \<open>The embedding extractor of extract\_embeddings.py\<close>

text \<open>
  The module is one class, \<open>EmbeddingExtractor\<close>, that walks a folder of labelled
  photographs, runs a face detector on every photograph, crops the most confident
  detection and hands the crop to an embedding network.  The two networks, the image
  decoder, the pixel interpolation of \<open>cv2.resize\<close>, \<open>cv2.dnn.blobFromImage\<close> and
  the directory walk of \<open>imutils.paths.list_images\<close> are taken as parameters; what the
  Python of the module itself does (path splitting, shape arithmetic, slicing, the
  threshold and size guards, the batch loop and every exception that Python raises on the
  way) is written out.

  Floating point: confidences and normalised coordinates are \<open>float32\<close> in the source and
  \<open>real\<close> here.  The comparison with \<open>0.5\<close> and the products with image sides below
  \<open>2 ^ 29\<close> are exact in \<open>float64\<close>, so they agree with the real ones on every finite
  input; \<open>NaN\<close> and infinities are outside the model.  Where \<open>float64\<close> rounds (the
  height of the resized image) or the machine decides (a cast outside the integer range),
  the value is a parameter of the platform.  Console output is not modelled.
\<close>

subsection \<open>Exceptions, events and the result of a call\<close>

datatype error =
    AttributeError      \<comment> \<open>\<open>None.shape\<close>\<close>
  | IndexError          \<comment> \<open>an index outside a list or an array axis\<close>
  | ValueError          \<comment> \<open>\<open>np.argmax\<close> of an empty sequence\<close>
  | ZeroDivisionError   \<comment> \<open>\<open>width / float(0)\<close>\<close>
  | Cv2Error            \<comment> \<open>a failed assertion inside \<open>cv2.resize\<close>\<close>
  | OSError             \<comment> \<open>\<open>open(path, "wb")\<close> failed\<close>

type_synonym pixel = "8 word \<times> 8 word \<times> 8 word"

text \<open>An image is a \<open>uint8\<close> array of shape \<open>(nrows, ncols, 3)\<close>.\<close>

record image =
  nrows :: nat
  ncols :: nat
  pix :: "pixel list list"

type_synonym blob = "real list"

text \<open>
  The detector returns an array of shape \<open>(d0, d1, N, 7)\<close>.  Its last axis has the fixed
  layout of the SSD detection output: image id, class label, confidence (column 2) and the
  normalised corners \<open>x1, y1, x2, y2\<close> (columns 3 to 6).
\<close>

record det_row =
  det_image_id :: real
  det_label :: real
  det_conf :: real
  det_x1 :: real
  det_y1 :: real
  det_x2 :: real
  det_y2 :: real

type_synonym detections = "det_row list list list"

text \<open>The dictionary that is pickled at the end of the batch.\<close>

record dataset =
  embeddings :: "real list list"
  names :: "string list"

datatype event =
    Imread string
  | DetectorForward blob
  | EmbedderForward blob
  | FileWrite string dataset

text \<open>
  A call returns an exception or a value, together with the events it caused, in order.
\<close>

type_synonym 'a run = "(error + 'a) \<times> event list"

definition okW :: "'a \<Rightarrow> 'a run" where
  "okW x = (Inr x, [])"

definition failW :: "error \<Rightarrow> 'a run" where
  "failW e = (Inl e, [])"

definition pureW :: "error + 'a \<Rightarrow> 'a run" where
  "pureW r = (r, [])"

definition logW :: "event \<Rightarrow> unit run" where
  "logW ev = (Inr (), [ev])"

definition bindW :: "'a run \<Rightarrow> ('a \<Rightarrow> 'b run) \<Rightarrow> 'b run" where
  "bindW m f =
     (case m of
        (Inl e, evs) \<Rightarrow> (Inl e, evs)
      | (Inr x, evs) \<Rightarrow> (case f x of (r, evs') \<Rightarrow> (r, evs @ evs')))"

subsection \<open>The platform and the object\<close>

record platform =
  path_sep :: char
    \<comment> \<open>\<open>os.path.sep\<close>\<close>
  list_images :: "string \<Rightarrow> string list"
    \<comment> \<open>\<open>list(imutils.paths.list_images(dir))\<close>\<close>
  imread :: "string \<Rightarrow> image option"
    \<comment> \<open>\<open>cv2.imread\<close>: \<open>None\<close> for a file that does not decode\<close>
  resize_pixels :: "image \<Rightarrow> nat \<Rightarrow> nat \<Rightarrow> pixel list list"
    \<comment> \<open>the interpolated pixels of \<open>cv2.resize(img, (w, h))\<close>\<close>
  scaled_height :: "nat \<Rightarrow> nat \<Rightarrow> nat \<Rightarrow> nat"
    \<comment> \<open>\<open>int(h * (width / float(w)))\<close> as \<open>float64\<close> arithmetic computes it, for \<open>h\<close>, \<open>w\<close>, \<open>width\<close>\<close>
  int_min :: int
  int_max :: int
    \<comment> \<open>the range of numpy's \<open>"int"\<close>: \<open>int64\<close>, or \<open>int32\<close> where a C \<open>long\<close> has 32 bits\<close>
  cast_overflow :: "real \<Rightarrow> int"
    \<comment> \<open>what the cast to that type yields outside its range, which C leaves undefined\<close>
  blobFromImage :: "image \<Rightarrow> real \<Rightarrow> nat \<times> nat \<Rightarrow> real \<times> real \<times> real \<Rightarrow> bool \<Rightarrow> bool \<Rightarrow> blob"
    \<comment> \<open>\<open>cv2.dnn.blobFromImage(img, scale, size, mean, swapRB, crop)\<close>\<close>
  writable :: "string \<Rightarrow> bool"
    \<comment> \<open>whether \<open>open(path, "wb")\<close> succeeds\<close>

record EmbeddingExtractor =
  DATASET :: string
  EMBEDDING_OUTPUT :: string
  DETECTOR :: string
  EMBEDDINGMODEL :: string
  detector :: "blob \<Rightarrow> detections"
    \<comment> \<open>\<open>self.detector\<close>: \<open>setInput\<close> followed by \<open>forward\<close>\<close>
  embedder :: "blob \<Rightarrow> real list list"
    \<comment> \<open>\<open>self.embedder\<close>: an array of shape \<open>(1, 128)\<close>\<close>

subsection \<open>Python and numpy primitives\<close>

text \<open>\<open>s.split(c)\<close> for a separator of one character.\<close>

fun py_split :: "char \<Rightarrow> string \<Rightarrow> string list" where
  "py_split c [] = [[]]"
| "py_split c (x # xs) =
     (if x = c then [] # py_split c xs
      else (case py_split c xs of
              [] \<Rightarrow> [[x]]
            | p # ps \<Rightarrow> (x # p) # ps))"

text \<open>\<open>xs[i]\<close> with Python's negative indices.\<close>

definition py_index :: "'a list \<Rightarrow> int \<Rightarrow> error + 'a" where
  "py_index xs i =
     (if 0 \<le> i \<and> i < int (length xs) then Inr (xs ! nat i)
      else if i < 0 \<and> - int (length xs) \<le> i then Inr (xs ! nat (int (length xs) + i))
      else Inl IndexError)"

text \<open>
  The bound of a slice on an axis of length \<open>n\<close>: a negative bound counts from the end,
  and every bound is clamped to \<open>0 .. n\<close>.
\<close>

definition slice_bound :: "int \<Rightarrow> nat \<Rightarrow> nat" where
  "slice_bound k n = (if k < 0 then nat (max (k + int n) 0) else min (nat k) n)"

definition slice_len :: "int \<Rightarrow> int \<Rightarrow> nat \<Rightarrow> nat" where
  "slice_len s e n = slice_bound e n - slice_bound s n"

definition py_slice :: "int \<Rightarrow> int \<Rightarrow> 'a list \<Rightarrow> 'a list" where
  "py_slice s e xs =
     (let n = length xs
      in take (slice_bound e n - slice_bound s n) (drop (slice_bound s n) xs))"

text \<open>\<open>image[startY:endY, startX:endX]\<close>.\<close>

definition crop :: "image \<Rightarrow> int \<Rightarrow> int \<Rightarrow> int \<Rightarrow> int \<Rightarrow> image" where
  "crop img startY endY startX endX =
     \<lparr> nrows = slice_len startY endY (nrows img),
       ncols = slice_len startX endX (ncols img),
       pix = map (py_slice startX endX) (py_slice startY endY (pix img)) \<rparr>"

text \<open>\<open>np.argmax\<close>: the first index of the greatest element.\<close>

fun argmax_from :: "real list \<Rightarrow> nat \<Rightarrow> nat \<Rightarrow> real \<Rightarrow> nat" where
  "argmax_from [] k best bv = best"
| "argmax_from (x # xs) k best bv =
     (if bv < x then argmax_from xs (Suc k) k x
      else argmax_from xs (Suc k) best bv)"

definition np_argmax :: "real list \<Rightarrow> error + nat" where
  "np_argmax xs =
     (case xs of
        [] \<Rightarrow> Inl ValueError
      | x # rest \<Rightarrow> Inr (argmax_from rest 1 0 x))"

subsection \<open>The library calls whose shape arithmetic matters\<close>

text \<open>
  \<open>astype("int")\<close> truncates towards zero where the result fits the integer type; what
  it yields elsewhere depends on the machine.
\<close>

definition astype_int :: "platform \<Rightarrow> real \<Rightarrow> int" where
  "astype_int P x =
     (let t = (if 0 \<le> x then \<lfloor>x\<rfloor> else \<lceil>x\<rceil>)
      in if int_min P \<le> t \<and> t \<le> int_max P then t else cast_overflow P x)"

text \<open>
  \<open>cv2.resize(img, (w, h))\<close> asserts that neither the source nor the target is empty, and
  returns an array of shape \<open>(h, w, 3)\<close>.
\<close>

definition cv2_resize :: "platform \<Rightarrow> image \<Rightarrow> nat \<times> nat \<Rightarrow> error + image" where
  "cv2_resize P img dsize =
     (case dsize of
        (w, h) \<Rightarrow>
          if nrows img = 0 \<or> ncols img = 0 \<or> w = 0 \<or> h = 0 then Inl Cv2Error
          else Inr \<lparr> nrows = h, ncols = w, pix = resize_pixels P img w h \<rparr>)"

text \<open>
  \<open>imutils.resize(image, width=width)\<close> reads \<open>image.shape[:2]\<close>, computes
  \<open>r = width / float(w)\<close> and resizes to \<open>(width, int(h * r))\<close>.  The quotient
  and the product are rounded to \<open>float64\<close>, so the height is not always the floor of
  the exact \<open>h * width / w\<close> (a file of 220 by 44 pixels gets 119 rows, not 120); the
  height is therefore taken from the platform.
\<close>

definition imutils_resize :: "platform \<Rightarrow> image option \<Rightarrow> nat \<Rightarrow> error + image" where
  "imutils_resize P img0 width =
     (case img0 of
        None \<Rightarrow> Inl AttributeError
      | Some img \<Rightarrow>
          (let h = nrows img; w = ncols img
           in if w = 0 then Inl ZeroDivisionError
              else cv2_resize P img
                     (width, scaled_height P h w width)))"

subsection \<open>The methods of the class\<close>

definition ExtractEmbedding ::
  "platform \<Rightarrow> EmbeddingExtractor \<Rightarrow> image \<Rightarrow> int \<Rightarrow> int \<Rightarrow> int \<Rightarrow> int
     \<Rightarrow> (real list list) option run" where
  "ExtractEmbedding P self img startX endX startY endY =
     (let face = crop img startY endY startX endX;
          fH = nrows face;
          fW = ncols face
      in if fW < 20 \<or> fH < 20 then okW None
         else (let faceBlob = blobFromImage P face (1 / 255) (96, 96) (0, 0, 0) True False
               in bindW (logW (EmbedderForward faceBlob))
                    (\<lambda>_. okW (Some (embedder self faceBlob)))))"

text \<open>\<open>detections[0, 0, element, 2]\<close>.\<close>

definition GetConfidence :: "detections \<Rightarrow> nat \<Rightarrow> error + real" where
  "GetConfidence dets element =
     (case py_index dets 0 of
        Inl e \<Rightarrow> Inl e
      | Inr plane \<Rightarrow>
          (case py_index plane 0 of
             Inl e \<Rightarrow> Inl e
           | Inr rows \<Rightarrow>
               (case py_index rows (int element) of
                  Inl e \<Rightarrow> Inl e
                | Inr row \<Rightarrow> Inr (det_conf row))))"

definition GetImage :: "platform \<Rightarrow> string \<Rightarrow> image run" where
  "GetImage P imagePath =
     bindW (logW (Imread imagePath))
       (\<lambda>_. pureW (imutils_resize P (imread P imagePath) 600))"

text \<open>
  \<open>detections[0, 0, i, 3:7] * np.array([w, h, w, h])\<close>, then \<open>astype("int")\<close>, unpacked as
  \<open>(startX, startY, endX, endY)\<close>.
\<close>

definition denormalize ::
  "platform \<Rightarrow> det_row \<Rightarrow> nat \<Rightarrow> nat \<Rightarrow> int \<times> int \<times> int \<times> int" where
  "denormalize P row w h =
     (astype_int P (det_x1 row * real w), astype_int P (det_y1 row * real h),
      astype_int P (det_x2 row * real w), astype_int P (det_y2 row * real h))"

text \<open>
  \<open>ProcessImage\<close> in two parts.  The first is the body up to the unpacking of the box:
  the label, the image, the detector and the choice of a detection.  It yields \<open>None\<close>
  where the method falls off its end, and the image, the label and the box where it goes
  on to the embedding.
\<close>

definition ProcessImage_detect ::
  "platform \<Rightarrow> EmbeddingExtractor \<Rightarrow> string
     \<Rightarrow> (image \<times> string \<times> int \<times> int \<times> int \<times> int) option run" where
  "ProcessImage_detect P self imagePath =
     bindW (pureW (py_index (py_split (path_sep P) imagePath) (- 2))) (\<lambda>name.
     bindW (GetImage P imagePath) (\<lambda>img.
     (let h = nrows img; w = ncols img
      in bindW (pureW (cv2_resize P img (300, 300))) (\<lambda>small.
         (let imageBlob = blobFromImage P small 1 (300, 300) (104, 177, 123) False False
          in bindW (logW (DetectorForward imageBlob)) (\<lambda>_.
             (let dets = detector self imageBlob
              in if length dets > 0 then
                   bindW (pureW (py_index dets 0)) (\<lambda>plane.
                   bindW (pureW (py_index plane 0)) (\<lambda>rows.
                   bindW (pureW (np_argmax (map det_conf rows))) (\<lambda>i.
                   bindW (pureW (GetConfidence dets i)) (\<lambda>confidence.
                     if confidence > 0.5 then
                       bindW (pureW (py_index rows (int i))) (\<lambda>row.
                         okW (Some (img, name, denormalize P row w h)))
                     else okW None))))
                 else okW None)))))))"

definition ProcessImage ::
  "platform \<Rightarrow> EmbeddingExtractor \<Rightarrow> string \<Rightarrow> (real list list \<times> string) option run" where
  "ProcessImage P self imagePath =
     bindW (ProcessImage_detect P self imagePath) (\<lambda>found.
       case found of
         None \<Rightarrow> okW None
       | Some (img, name, startX, startY, endX, endY) \<Rightarrow>
           bindW (ExtractEmbedding P self img startX endX startY endY) (\<lambda>vec.
             case vec of
               None \<Rightarrow> okW None
             | Some v \<Rightarrow> okW (Some (v, name))))"

text \<open>The accumulators of the batch loop.\<close>

record accum =
  knownEmbeddings :: "real list list"
  knownNames :: "string list"
  total :: nat

fun batch_loop ::
  "platform \<Rightarrow> EmbeddingExtractor \<Rightarrow> string list \<Rightarrow> accum \<Rightarrow> accum run" where
  "batch_loop P self [] a = okW a"
| "batch_loop P self (imagePath # rest) a =
     bindW (ProcessImage P self imagePath) (\<lambda>success.
       case success of
         None \<Rightarrow> batch_loop P self rest a
       | Some (vec, name) \<Rightarrow>
           batch_loop P self rest
             (a\<lparr> knownNames := knownNames a @ [name],
                 knownEmbeddings := knownEmbeddings a @ [concat vec],
                 total := total a + 1 \<rparr>))"

text \<open>
  \<open>ProcessFolders(self, imageFolder)\<close>.  The listing is taken from \<open>self._DATASET\<close>; the
  parameter \<open>imageFolder\<close> does not occur in the body.
\<close>

definition ProcessFolders ::
  "platform \<Rightarrow> EmbeddingExtractor \<Rightarrow> string \<Rightarrow> dataset run" where
  "ProcessFolders P self imageFolder =
     (let imagePaths = list_images P (DATASET self)
      in bindW (batch_loop P self imagePaths
                  \<lparr> knownEmbeddings = [], knownNames = [], total = 1 \<rparr>) (\<lambda>a.
         (let data = \<lparr> embeddings = knownEmbeddings a, names = knownNames a \<rparr>
          in if writable P (EMBEDDING_OUTPUT self) then
               bindW (logW (FileWrite (EMBEDDING_OUTPUT self) data)) (\<lambda>_. okW data)
             else failW OSError)))"

subsection \<open>Views used in the proofs\<close>

text \<open>
  The inputs of the two networks, as \<open>ProcessImage\<close> and \<open>ExtractEmbedding\<close> build them.
\<close>

definition detector_blob :: "platform \<Rightarrow> image \<Rightarrow> blob" where
  "detector_blob P small = blobFromImage P small 1 (300, 300) (104, 177, 123) False False"

definition face_blob :: "platform \<Rightarrow> image \<Rightarrow> blob" where
  "face_blob P face = blobFromImage P face (1 / 255) (96, 96) (0, 0, 0) True False"

text \<open>
  What the selection in \<open>ProcessImage\<close> amounts to on each shape of the detector's output;
  \<open>select_tail\<close> below proves that the code computes it.
\<close>

definition select_row :: "detections \<Rightarrow> error + det_row option" where
  "select_row dets =
     (case dets of
        [] \<Rightarrow> Inr None
      | [] # _ \<Rightarrow> Inl IndexError
      | ([] # _) # _ \<Rightarrow> Inl ValueError
      | ((r # rs) # _) # _ \<Rightarrow>
          (let row = (r # rs) ! argmax_from (map det_conf rs) 1 0 (det_conf r)
           in if det_conf row > 0.5 then Inr (Some row) else Inr None))"

definition located ::
  "platform \<Rightarrow> image \<Rightarrow> string \<Rightarrow> error + det_row option
     \<Rightarrow> error + (image \<times> string \<times> int \<times> int \<times> int \<times> int) option" where
  "located P img name r =
     (case r of
        Inl e \<Rightarrow> Inl e
      | Inr None \<Rightarrow> Inr None
      | Inr (Some row) \<Rightarrow> Inr (Some (img, name, denormalize P row (ncols img) (nrows img))))"

text \<open>\<open>c.join(parts)\<close>, the inverse of \<open>py_split\<close>.\<close>

fun py_join :: "char \<Rightarrow> string list \<Rightarrow> string" where
  "py_join c [] = []"
| "py_join c [x] = x"
| "py_join c (x # y # zs) = x @ c # py_join c (y # zs)"

text \<open>
  The name of the directory that holds the file a path names, as a file system reads the
  path.  \<open>is_sep\<close> tells which characters the file system takes as separators (on
  Windows both the backslash and the slash); a run of separators counts as one, and a component
  \<open>.\<close> stands for the directory before it.  A path with a component \<open>..\<close> is left
  undecided, since what it names depends on the directory tree.
\<close>

fun split_where :: "(char \<Rightarrow> bool) \<Rightarrow> string \<Rightarrow> string list" where
  "split_where f [] = [[]]"
| "split_where f (x # xs) =
     (if f x then [] # split_where f xs
      else (case split_where f xs of
              [] \<Rightarrow> [[x]]
            | p # ps \<Rightarrow> (x # p) # ps))"

definition parent_directory_name :: "(char \<Rightarrow> bool) \<Rightarrow> string \<Rightarrow> string option" where
  "parent_directory_name is_sep path =
     (let parts = filter (\<lambda>p. p \<noteq> [] \<and> p \<noteq> ''.'') (split_where is_sep path)
      in if ''..'' \<in> set parts \<or> length parts < 2 then None
         else Some (parts ! (length parts - 2)))"

text \<open>An image that the batch loop skips: \<open>ProcessImage\<close> returned \<open>None\<close>.\<close>

definition skipped :: "platform \<Rightarrow> EmbeddingExtractor \<Rightarrow> string \<Rightarrow> bool" where
  "skipped P self imagePath \<longleftrightarrow> fst (ProcessImage P self imagePath) = Inr None"


text \<open>What one image contributes to the output: a pair, or nothing.\<close>

definition image_output ::
  "platform \<Rightarrow> EmbeddingExtractor \<Rightarrow> string \<Rightarrow> (real list \<times> string) list" where
  "image_output P self imagePath =
     (case fst (ProcessImage P self imagePath) of
        Inr (Some (vec, name)) \<Rightarrow> [(concat vec, name)]
      | _ \<Rightarrow> [])"

subsection \<open>A small dataset\<close>

text \<open>
  Two folders of photographs.  \<open>a.png\<close> is 1200 by 800 and \<open>b.png\<close> is 1200 by 600;
  \<open>bad.png\<close> does not decode.  Both photographs are twice as wide as the target of 600,
  so the factor is 0.5 and \<open>float64\<close> gives their resized heights, 400 and 300, exactly
  as the stand-in for \<open>scaled_height\<close> does.  Integers are \<open>int64\<close>.  The stand-in for
  \<open>blobFromImage\<close> keeps the shape of its input, the detector answers every input with
  the same rows, and the embedder returns its input as a one-row array.
\<close>

definition black :: pixel where
  "black = (0, 0, 0)"

definition solid :: "nat \<Rightarrow> nat \<Rightarrow> image" where
  "solid h w = \<lparr> nrows = h, ncols = w, pix = replicate h (replicate w black) \<rparr>"

definition demo_platform :: platform where
  "demo_platform =
     \<lparr> path_sep = CHR ''/'',
       list_images = (\<lambda>d.
         if d = ''ds'' then [''ds/alice/a.png'', ''ds/bob/bad.png'', ''ds/bob/b.png'']
         else if d = ''faces'' then [''faces/alice/a.png'', ''faces/bob/b.png'']
         else []),
       imread = (\<lambda>p.
         if p = ''ds/alice/a.png'' \<or> p = ''faces/alice/a.png'' then Some (solid 800 1200)
         else if p = ''ds/bob/b.png'' \<or> p = ''faces/bob/b.png'' then Some (solid 600 1200)
         else None),
       resize_pixels = (\<lambda>img w h. replicate h (replicate w black)),
       scaled_height = (\<lambda>h w width. nat \<lfloor>real h * (real width / real w)\<rfloor>),
       int_min = - 9223372036854775808,
       int_max = 9223372036854775807,
       cast_overflow = (\<lambda>x. - 9223372036854775808),
       blobFromImage = (\<lambda>img scale size mean swapRB crop. [real (nrows img), real (ncols img)]),
       writable = (\<lambda>p. True) \<rparr>"

definition demo_row :: "real \<Rightarrow> real \<Rightarrow> real \<Rightarrow> real \<Rightarrow> real \<Rightarrow> det_row" where
  "demo_row c x1 y1 x2 y2 =
     \<lparr> det_image_id = 0, det_label = 1, det_conf = c,
       det_x1 = x1, det_y1 = y1, det_x2 = x2, det_y2 = y2 \<rparr>"

definition demo_face :: det_row where
  "demo_face = demo_row 0.9 0.1 0.1 0.5 0.15"

definition demo_extractor :: "string \<Rightarrow> det_row list \<Rightarrow> EmbeddingExtractor" where
  "demo_extractor dir rows =
     \<lparr> DATASET = dir, EMBEDDING_OUTPUT = ''out.pickle'', DETECTOR = ''det'',
       EMBEDDINGMODEL = ''emb.t7'',
       detector = (\<lambda>b. [[rows]]),
       embedder = (\<lambda>b. [b]) \<rparr>"

definition demo_init :: accum where
  "demo_init = \<lparr> knownEmbeddings = [], knownNames = [], total = 1 \<rparr>"


definition demo_centre :: det_row where
  "demo_centre = demo_row 0.9 0.25 0.25 0.75 0.75"

text \<open>The same platform with a decoder that accepts every path.\<close>

definition demo_any_file :: platform where
  "demo_any_file = demo_platform\<lparr> imread := \<lambda>p. Some (solid 800 1200) \<rparr>"

section \<open>Lemmas\<close>

subsection \<open>Sequencing\<close>

lemma bindW_okW [simp]: "bindW (okW x) f = f x"
  by (simp add: bindW_def okW_def split: prod.splits)

lemma bindW_pureW_Inr [simp]: "bindW (pureW (Inr x)) f = f x"
  by (simp add: bindW_def pureW_def split: prod.splits)

lemma bindW_pureW_Inl [simp]: "bindW (pureW (Inl e)) f = (Inl e, [])"
  by (simp add: bindW_def pureW_def)

lemma bindW_logW [simp]: "bindW (logW ev) f = (fst (f ()), ev # snd (f ()))"
  by (simp add: bindW_def logW_def split: prod.splits)

lemma bindW_Inl [simp]: "bindW (Inl e, evs) f = (Inl e, evs)"
  by (simp add: bindW_def)

lemma bindW_Inr [simp]: "bindW (Inr x, evs) f = (fst (f x), evs @ snd (f x))"
  by (simp add: bindW_def split: prod.splits)

lemma bindW_assoc: "bindW (bindW m f) g = bindW m (\<lambda>x. bindW (f x) g)"
  by (auto simp: bindW_def split: prod.splits sum.splits)

lemma bindW_InrD:
  "bindW m f = (Inr y, evs) \<Longrightarrow>
     \<exists>x e1 e2. m = (Inr x, e1) \<and> f x = (Inr y, e2) \<and> evs = e1 @ e2"
  by (auto simp: bindW_def split: prod.splits sum.splits)

lemma bindW_fst_Inl: "fst m = Inl e \<Longrightarrow> fst (bindW m f) = Inl e"
  by (cases m) (auto simp: bindW_def)

subsection \<open>Primitives\<close>

lemma argmax_from_spec:
  assumes "k = length pre" "best < k" "bv = pre ! best"
    and "\<forall>j<k. pre ! j \<le> bv" "\<forall>j<best. pre ! j < bv"
  shows "argmax_from xs k best bv < length (pre @ xs) \<and>
         (\<forall>j<length (pre @ xs). (pre @ xs) ! j \<le> (pre @ xs) ! argmax_from xs k best bv) \<and>
         (\<forall>j<argmax_from xs k best bv. (pre @ xs) ! j < (pre @ xs) ! argmax_from xs k best bv)"
  using assms
proof (induction xs arbitrary: pre k best bv)
  case Nil
  then show ?case by simp
next
  case (Cons x xs)
  show ?case
  proof (cases "bv < x")
    case True
    have "argmax_from xs (Suc k) k x < length ((pre @ [x]) @ xs) \<and>
         (\<forall>j<length ((pre @ [x]) @ xs). ((pre @ [x]) @ xs) ! j \<le> ((pre @ [x]) @ xs) ! argmax_from xs (Suc k) k x) \<and>
         (\<forall>j<argmax_from xs (Suc k) k x. ((pre @ [x]) @ xs) ! j < ((pre @ [x]) @ xs) ! argmax_from xs (Suc k) k x)"
    proof (rule Cons.IH)
      show "Suc k = length (pre @ [x])" using Cons.prems by simp
      show "k < Suc k" by simp
      show "x = (pre @ [x]) ! k" using Cons.prems by simp
      show "\<forall>j<Suc k. (pre @ [x]) ! j \<le> x"
        using Cons.prems True by (auto simp: nth_append less_Suc_eq intro: order_trans less_imp_le)
      show "\<forall>j<k. (pre @ [x]) ! j < x"
        using Cons.prems True by (auto simp: nth_append intro: le_less_trans)
    qed
    with True show ?thesis by simp
  next
    case False
    have "argmax_from xs (Suc k) best bv < length ((pre @ [x]) @ xs) \<and>
         (\<forall>j<length ((pre @ [x]) @ xs). ((pre @ [x]) @ xs) ! j \<le> ((pre @ [x]) @ xs) ! argmax_from xs (Suc k) best bv) \<and>
         (\<forall>j<argmax_from xs (Suc k) best bv. ((pre @ [x]) @ xs) ! j < ((pre @ [x]) @ xs) ! argmax_from xs (Suc k) best bv)"
    proof (rule Cons.IH)
      show "Suc k = length (pre @ [x])" using Cons.prems by simp
      show "best < Suc k" using Cons.prems by simp
      show "bv = (pre @ [x]) ! best" using Cons.prems by (simp add: nth_append)
      show "\<forall>j<Suc k. (pre @ [x]) ! j \<le> bv"
        using Cons.prems False by (auto simp: nth_append less_Suc_eq)
      show "\<forall>j<best. (pre @ [x]) ! j < bv"
        using Cons.prems by (auto simp: nth_append)
    qed
    with False show ?thesis by simp
  qed
qed


lemma py_split_nonempty: "py_split c xs \<noteq> []"
  by (induction xs) (auto split: list.splits)

lemma py_split_append:
  "py_split c (xs @ c # ys) = py_split c xs @ py_split c ys"
  by (induction xs) (auto simp: py_split_nonempty split: list.splits)

lemma py_split_no_sep: "c \<notin> set xs \<Longrightarrow> py_split c xs = [xs]"
  by (induction xs) auto

lemma slice_bound_le: "slice_bound k n \<le> n"
  by (auto simp: slice_bound_def)

lemma length_py_slice: "length (py_slice s e xs) = slice_len s e (length xs)"
  using slice_bound_le [of e "length xs"] by (simp add: py_slice_def slice_len_def Let_def)

lemma py_index_0 [simp]: "py_index (x # xs) 0 = Inr x" "py_index [] 0 = Inl IndexError"
  by (simp_all add: py_index_def)

lemma py_index_nat: "i < length xs \<Longrightarrow> py_index xs (int i) = Inr (xs ! i)"
  by (simp add: py_index_def)

lemma argmax_from_bound: "argmax_from rs 1 0 c < Suc (length rs)"
  using argmax_from_spec [of 1 "[c]" 0 c rs] by simp

lemma select_tail:
  "(if length dets > 0 then
      bindW (pureW (py_index dets 0)) (\<lambda>plane.
      bindW (pureW (py_index plane 0)) (\<lambda>rows.
      bindW (pureW (np_argmax (map det_conf rows))) (\<lambda>i.
      bindW (pureW (GetConfidence dets i)) (\<lambda>confidence.
        if confidence > 0.5 then
          bindW (pureW (py_index rows (int i))) (\<lambda>row.
            okW (Some (img, name, denormalize P row (ncols img) (nrows img))))
        else okW None))))
    else okW None) = (located P img name (select_row dets), [])"
proof (cases dets)
  case Nil
  then show ?thesis by (simp add: select_row_def located_def okW_def)
next
  case (Cons plane r0)
  show ?thesis
  proof (cases plane)
    case Nil
    with Cons show ?thesis by (simp add: select_row_def located_def)
  next
    case c2: (Cons rows r1)
    show ?thesis
    proof (cases rows)
      case Nil
      with Cons c2 show ?thesis by (simp add: select_row_def located_def np_argmax_def)
    next
      case c3: (Cons r rs)
      let ?i = "argmax_from (map det_conf rs) 1 0 (det_conf r)"
      have b: "?i < length (r # rs)" using argmax_from_bound [of "map det_conf rs" "det_conf r"] by simp
      have ix: "py_index (r # rs) (int ?i) = Inr ((r # rs) ! ?i)"
        using b by (rule py_index_nat)
      have gc: "GetConfidence dets ?i = Inr (det_conf ((r # rs) ! ?i))"
        using ix by (simp add: GetConfidence_def Cons c2 c3)
      show ?thesis
        using ix gc
        by (simp add: Cons c2 c3 np_argmax_def select_row_def located_def okW_def Let_def)
    qed
  qed
qed

subsection \<open>The methods, unfolded\<close>

lemma ProcessImage_detect_char:
  "ProcessImage_detect P self path =
     (case py_index (py_split (path_sep P) path) (- 2) of
        Inl e \<Rightarrow> (Inl e, [])
      | Inr name \<Rightarrow>
          (case imutils_resize P (imread P path) 600 of
             Inl e \<Rightarrow> (Inl e, [Imread path])
           | Inr img \<Rightarrow>
               (case cv2_resize P img (300, 300) of
                  Inl e \<Rightarrow> (Inl e, [Imread path])
                | Inr small \<Rightarrow>
                    (located P img name (select_row (detector self (detector_blob P small))),
                     [Imread path, DetectorForward (detector_blob P small)]))))"
  unfolding ProcessImage_detect_def GetImage_def Let_def select_tail detector_blob_def
  by (simp add: pureW_def split: sum.splits)

lemma ExtractEmbedding_char:
  "ExtractEmbedding P self img sx ex sy ey =
     (if slice_len sx ex (ncols img) < 20 \<or> slice_len sy ey (nrows img) < 20
      then (Inr None, [])
      else (Inr (Some (embedder self (face_blob P (crop img sy ey sx ex)))),
            [EmbedderForward (face_blob P (crop img sy ey sx ex))]))"
  by (simp add: ExtractEmbedding_def Let_def crop_def okW_def face_blob_def)

lemma ProcessImage_char:
  "ProcessImage P self path =
     (case ProcessImage_detect P self path of
        (Inl e, evs) \<Rightarrow> (Inl e, evs)
      | (Inr None, evs) \<Rightarrow> (Inr None, evs)
      | (Inr (Some (img, name, sx, sy, ex, ey)), evs) \<Rightarrow>
          (if ncols (crop img sy ey sx ex) < 20 \<or> nrows (crop img sy ey sx ex) < 20
           then (Inr None, evs)
           else (Inr (Some (embedder self (face_blob P (crop img sy ey sx ex)), name)),
                 evs @ [EmbedderForward (face_blob P (crop img sy ey sx ex))])))"
  by (simp add: ProcessImage_def ExtractEmbedding_char okW_def crop_def
      split: prod.splits sum.splits option.splits)



subsection \<open>The batch loop\<close>

lemma batch_loop_skip:
  "fst (ProcessImage P self p) = Inr None \<Longrightarrow>
     batch_loop P self (p # rest) a =
       (fst (batch_loop P self rest a),
        snd (ProcessImage P self p) @ snd (batch_loop P self rest a))"
  by (cases "ProcessImage P self p") simp

lemma batch_loop_success:
  "fst (ProcessImage P self p) = Inr (Some (vec, name)) \<Longrightarrow>
     batch_loop P self (p # rest) a =
       (let a' = a\<lparr> knownNames := knownNames a @ [name],
                      knownEmbeddings := knownEmbeddings a @ [concat vec],
                      total := total a + 1 \<rparr>
        in (fst (batch_loop P self rest a'),
            snd (ProcessImage P self p) @ snd (batch_loop P self rest a')))"
  by (cases "ProcessImage P self p") (simp add: Let_def)

lemma batch_loop_raise:
  "fst (ProcessImage P self p) = Inl e \<Longrightarrow>
     batch_loop P self (p # rest) a = (Inl e, snd (ProcessImage P self p))"
  by (cases "ProcessImage P self p") simp

lemma batch_loop_counts:
  "batch_loop P self ps a = (Inr a', evs) \<Longrightarrow>
     length (knownNames a') + length (filter (skipped P self) ps)
       = length (knownNames a) + length ps \<and>
     length (knownEmbeddings a') + length (filter (skipped P self) ps)
       = length (knownEmbeddings a) + length ps \<and>
     total a' + length (filter (skipped P self) ps) = total a + length ps"
proof (induction ps arbitrary: a evs)
  case Nil
  then show ?case by (simp add: okW_def)
next
  case (Cons p ps)
  obtain r e1 where pi: "ProcessImage P self p = (r, e1)" by (cases "ProcessImage P self p")
  show ?case
  proof (cases r)
    case (Inl e)
    with pi Cons.prems show ?thesis by simp
  next
    case (Inr s)
    show ?thesis
    proof (cases s)
      case None
      with pi Inr have sk: "skipped P self p" by (simp add: skipped_def)
      from pi Inr None Cons.prems
      have "batch_loop P self ps a = (Inr a', snd (batch_loop P self ps a))"
        by (cases "batch_loop P self ps a") simp
      from Cons.IH [OF this] sk show ?thesis by simp
    next
      case (Some vn)
      obtain vec name where vn: "vn = (vec, name)" by (cases vn)
      let ?a = "a\<lparr> knownNames := knownNames a @ [name],
                   knownEmbeddings := knownEmbeddings a @ [concat vec],
                   total := total a + 1 \<rparr>"
      from pi Inr Some vn have sk: "\<not> skipped P self p" by (simp add: skipped_def)
      from pi Inr Some vn Cons.prems
      have "batch_loop P self ps ?a = (Inr a', snd (batch_loop P self ps ?a))"
        by (cases "batch_loop P self ps ?a") simp
      from Cons.IH [OF this] sk show ?thesis by simp
    qed
  qed
qed

lemma batch_loop_append:
  "batch_loop P self (xs @ ys) a = bindW (batch_loop P self xs a) (batch_loop P self ys)"
proof (induction xs arbitrary: a)
  case Nil
  show ?case by simp
next
  case (Cons p xs)
  show ?case
    by (simp add: bindW_assoc Cons.IH
        option.case_distrib [of "\<lambda>m. bindW m (batch_loop P self ys)"]
        prod.case_distrib [of "\<lambda>m. bindW m (batch_loop P self ys)"] cong: option.case_cong)
qed

lemma batch_loop_prefix:
  assumes "batch_loop P self ps a = (Inr a', evs)"
  shows "\<exists>b evs'. batch_loop P self (take k ps) a = (Inr b, evs')"
proof -
  have "bindW (batch_loop P self (take k ps) a) (batch_loop P self (drop k ps)) = (Inr a', evs)"
    using assms batch_loop_append [of P self "take k ps" "drop k ps" a] by simp
  from bindW_InrD [OF this] show ?thesis by blast
qed

lemma batch_loop_abort:
  "p \<in> set ps \<Longrightarrow> fst (ProcessImage P self p) = Inl e \<Longrightarrow>
     \<exists>e'. fst (batch_loop P self ps a) = Inl e'"
proof (induction ps arbitrary: a)
  case Nil
  then show ?case by simp
next
  case (Cons q ps)
  obtain r e1 where pi: "ProcessImage P self q = (r, e1)" by (cases "ProcessImage P self q")
  show ?case
  proof (cases r)
    case (Inl e0)
    with pi show ?thesis by simp
  next
    case (Inr s)
    with pi Cons.prems have "p \<in> set ps" by auto
    from Cons.IH [OF this Cons.prems(2)] pi Inr show ?thesis
      by (cases s) (auto split: prod.splits)
  qed
qed

subsection \<open>Evaluating the small dataset\<close>

lemmas demo_simps =
  ProcessImage_char ProcessImage_detect_char ExtractEmbedding_char ProcessFolders_def
  demo_platform_def demo_extractor_def demo_row_def demo_face_def demo_init_def solid_def
  py_index_def imutils_resize_def cv2_resize_def select_row_def located_def
  detector_blob_def face_blob_def denormalize_def astype_int_def Let_def
  slice_len_def slice_bound_def crop_def okW_def failW_def




lemma demo_faces_a_png:
  "ProcessImage demo_platform (demo_extractor dir [demo_face]) ''faces/alice/a.png'' =
     (Inr (Some ([[20, 240]], ''alice'')),
      [Imread ''faces/alice/a.png'', DetectorForward [300, 300], EmbedderForward [20, 240]])"
  by (simp add: demo_simps)

lemma demo_faces_b_png:
  "ProcessImage demo_platform (demo_extractor dir [demo_face]) ''faces/bob/b.png'' =
     (Inr None, [Imread ''faces/bob/b.png'', DetectorForward [300, 300]])"
  by (simp add: demo_simps)

lemma demo_faces_listing:
  "list_images demo_platform (DATASET (demo_extractor ''faces'' rows)) =
     [''faces/alice/a.png'', ''faces/bob/b.png'']"
  by (simp add: demo_platform_def demo_extractor_def)

lemma demo_output:
  "writable demo_platform p" "EMBEDDING_OUTPUT (demo_extractor dir rows) = ''out.pickle''"
  by (simp_all add: demo_platform_def demo_extractor_def)

lemma demo_faces_batch:
  "ProcessFolders demo_platform (demo_extractor ''faces'' [demo_face]) imageFolder =
     (Inr \<lparr> embeddings = [[20, 240]], names = [''alice''] \<rparr>,
      [Imread ''faces/alice/a.png'', DetectorForward [300, 300], EmbedderForward [20, 240],
       Imread ''faces/bob/b.png'', DetectorForward [300, 300],
       FileWrite ''out.pickle'' \<lparr> embeddings = [[20, 240]], names = [''alice''] \<rparr>])"
  unfolding ProcessFolders_def Let_def demo_faces_listing
  by (simp add: demo_faces_a_png demo_faces_b_png demo_output okW_def)


subsection \<open>Selection and threshold\<close>

lemma select_row_low_confidence:
  assumes "rows \<noteq> []" and "\<forall>r \<in> set rows. det_conf r \<le> 0.5"
  shows "select_row ((rows # r1) # r0) = Inr None"
proof -
  from assms(1) obtain r rs where rows: "rows = r # rs" by (cases rows) auto
  have "argmax_from (map det_conf rs) 1 0 (det_conf r) < length rows"
    using argmax_from_bound [of "map det_conf rs" "det_conf r"] by (simp add: rows)
  then have "rows ! argmax_from (map det_conf rs) 1 0 (det_conf r) \<in> set rows" by simp
  with assms(2) have "det_conf (rows ! argmax_from (map det_conf rs) 1 0 (det_conf r)) \<le> 0.5"
    by blast
  then show ?thesis by (simp add: select_row_def rows Let_def)
qed

lemma no_detection_no_embedding:
  assumes "ProcessImage_detect P self imagePath = (Inr None, evs)"
  shows "ProcessImage P self imagePath = (Inr None, evs) \<and> EmbedderForward b \<notin> set evs"
  using assms
  by (auto simp: ProcessImage_char ProcessImage_detect_char split: sum.splits)

lemma ProcessFolders_ignores_imageFolder:
  "ProcessFolders P self imageFolder = ProcessFolders P self imageFolder'"
  by (simp add: ProcessFolders_def)

subsection \<open>From detection to embedding, and the label\<close>

lemma ProcessImage_after_detect:
  assumes "ProcessImage_detect P self imagePath
             = (Inr (Some (img, name, startX, startY, endX, endY)), evs)"
  shows "ProcessImage P self imagePath =
     (if ncols (crop img startY endY startX endX) < 20
           \<or> nrows (crop img startY endY startX endX) < 20
      then (Inr None, evs)
      else (Inr (Some (embedder self (face_blob P (crop img startY endY startX endX)), name)),
            evs @ [EmbedderForward (face_blob P (crop img startY endY startX endX))]))"
  unfolding ProcessImage_char assms by simp

lemma demo_detect_b_png:
  "ProcessImage_detect demo_platform (demo_extractor ''faces'' [demo_face]) ''faces/bob/b.png'' =
     (Inr (Some (solid 300 600, ''bob'', 60, 30, 300, 45)),
      [Imread ''faces/bob/b.png'', DetectorForward [300, 300]])"
  by (simp add: demo_simps)

lemma ProcessImage_success_detect:
  assumes "ProcessImage P self imagePath = (Inr (Some (vec, label)), evs)"
  shows "\<exists>img sx sy ex ey evs'.
           ProcessImage_detect P self imagePath = (Inr (Some (img, label, sx, sy, ex, ey)), evs')"
proof -
  obtain r e where d: "ProcessImage_detect P self imagePath = (r, e)"
    by (cases "ProcessImage_detect P self imagePath")
  show ?thesis
  proof (cases r)
    case (Inl x)
    with assms d show ?thesis by (simp add: ProcessImage_char)
  next
    case (Inr s)
    show ?thesis
    proof (cases s)
      case None
      with assms d Inr show ?thesis by (simp add: ProcessImage_char)
    next
      case (Some t)
      obtain img name sx sy ex ey where t: "t = (img, name, sx, sy, ex, ey)"
        by (cases t)
      from assms d Inr Some t have "name = label"
        by (simp add: ProcessImage_char split: if_splits)
      with d Inr Some t show ?thesis by simp
    qed
  qed
qed

lemma located_SomeD:
  "located P img name r = Inr (Some (img', name', box)) \<Longrightarrow> name' = name \<and> img' = img"
  by (cases r) (auto simp: located_def split: option.splits)

lemma ProcessImage_detect_label:
  assumes "ProcessImage_detect P self imagePath = (Inr (Some (img, label, box)), evs)"
  shows "py_index (py_split (path_sep P) imagePath) (- 2) = Inr label"
proof (cases "py_index (py_split (path_sep P) imagePath) (- 2)")
  case (Inl e)
  with assms show ?thesis by (simp add: ProcessImage_detect_char)
next
  case name: (Inr name)
  show ?thesis
  proof (cases "imutils_resize P (imread P imagePath) 600")
    case (Inl e)
    with assms name show ?thesis by (simp add: ProcessImage_detect_char)
  next
    case im: (Inr im)
    show ?thesis
    proof (cases "cv2_resize P im (300, 300)")
      case (Inl e)
      with assms name im show ?thesis by (simp add: ProcessImage_detect_char)
    next
      case (Inr small)
      with assms name im
      have "located P im name (select_row (detector self (detector_blob P small)))
              = Inr (Some (img, label, box))"
        by (simp add: ProcessImage_detect_char)
      from located_SomeD [OF this] name show ?thesis by simp
    qed
  qed
qed

lemma ProcessImage_label:
  assumes "ProcessImage P self imagePath = (Inr (Some (vec, label)), evs)"
  shows "py_index (py_split (path_sep P) imagePath) (- 2) = Inr label"
proof -
  from ProcessImage_success_detect [OF assms] obtain img sx sy ex ey evs' where
    "ProcessImage_detect P self imagePath = (Inr (Some (img, label, sx, sy, ex, ey)), evs')"
    by blast
  then show ?thesis by (rule ProcessImage_detect_label)
qed

lemma py_index_penultimate: "py_index (xs @ [a, b]) (- 2) = Inr a"
  by (simp add: py_index_def nth_append)

subsection \<open>Keeping only the selected candidate\<close>





subsection \<open>What an accepted detection tells\<close>

lemma select_row_SomeD:
  assumes "select_row dets = Inr (Some row)"
  shows "\<exists>rows r1 r0 i. dets = (rows # r1) # r0 \<and> np_argmax (map det_conf rows) = Inr i \<and>
           i < length rows \<and> row = rows ! i \<and> det_conf row > 0.5"
proof (cases dets)
  case Nil
  with assms show ?thesis by (simp add: select_row_def)
next
  case (Cons plane r0)
  show ?thesis
  proof (cases plane)
    case Nil
    with assms Cons show ?thesis by (simp add: select_row_def)
  next
    case c2: (Cons rows r1)
    show ?thesis
    proof (cases rows)
      case Nil
      with assms Cons c2 show ?thesis by (simp add: select_row_def)
    next
      case c3: (Cons r rs)
      let ?i = "argmax_from (map det_conf rs) 1 0 (det_conf r)"
      have b: "?i < length rows"
        using argmax_from_bound [of "map det_conf rs" "det_conf r"] by (simp add: c3)
      have am: "np_argmax (map det_conf rows) = Inr ?i" by (simp add: np_argmax_def c3)
      from assms Cons c2 c3 have "row = rows ! ?i \<and> det_conf row > 0.5"
        by (simp add: select_row_def Let_def split: if_splits)
      with b am Cons c2 show ?thesis by blast
    qed
  qed
qed

lemma located_Some_row:
  "located P img name r = Inr (Some (img', name', box)) \<Longrightarrow>
     \<exists>row. r = Inr (Some row) \<and> box = denormalize P row (ncols img) (nrows img)"
  by (cases r) (auto simp: located_def split: option.splits)

lemma imutils_resize_InrD:
  assumes "imutils_resize P io w = Inr img"
  shows "\<exists>orig. io = Some orig \<and> ncols img = w \<and>
           nrows img = scaled_height P (nrows orig) (ncols orig) w"
proof (cases io)
  case None
  with assms show ?thesis by (simp add: imutils_resize_def)
next
  case (Some orig)
  with assms show ?thesis
    by (auto simp: imutils_resize_def cv2_resize_def Let_def split: if_splits)
qed

lemma demo_detect_centre:
  "ProcessImage_detect demo_platform (demo_extractor ''faces'' [demo_centre]) ''faces/alice/a.png'' =
     (Inr (Some (solid 400 600, ''alice'', 150, 100, 450, 300)),
      [Imread ''faces/alice/a.png'', DetectorForward [300, 300]])"
  by (simp add: demo_simps demo_centre_def)

subsection \<open>Slices\<close>

lemma slice_len_inverted:
  "0 \<le> s \<Longrightarrow> 0 \<le> e \<Longrightarrow> e \<le> s \<Longrightarrow> slice_len s e n = 0"
  by (auto simp: slice_len_def slice_bound_def min_def)

lemma slice_len_clamped:
  "0 \<le> s \<Longrightarrow> s \<le> e \<Longrightarrow> slice_len s e n = min (nat e) n - min (nat s) n"
  by (auto simp: slice_len_def slice_bound_def)

subsection \<open>The output as a function of the listing\<close>

lemma batch_loop_outputs:
  "length (knownEmbeddings a) = length (knownNames a) \<Longrightarrow>
   batch_loop P self ps a = (Inr a', evs) \<Longrightarrow>
     length (knownEmbeddings a') = length (knownNames a') \<and>
     zip (knownEmbeddings a') (knownNames a')
       = zip (knownEmbeddings a) (knownNames a) @ concat (map (image_output P self) ps)"
proof (induction ps arbitrary: a evs)
  case Nil
  then show ?case by (simp add: okW_def)
next
  case (Cons p ps)
  obtain r e1 where pi: "ProcessImage P self p = (r, e1)" by (cases "ProcessImage P self p")
  show ?case
  proof (cases r)
    case (Inl e)
    with pi Cons.prems show ?thesis by simp
  next
    case (Inr s)
    show ?thesis
    proof (cases s)
      case None
      with pi Inr have out: "image_output P self p = []" by (simp add: image_output_def)
      from pi Inr None Cons.prems(2)
      have "batch_loop P self ps a = (Inr a', snd (batch_loop P self ps a))"
        by (cases "batch_loop P self ps a") simp
      from Cons.IH [OF Cons.prems(1) this] out show ?thesis by simp
    next
      case (Some vn)
      obtain vec name where vn: "vn = (vec, name)" by (cases vn)
      let ?a = "a\<lparr> knownNames := knownNames a @ [name],
                   knownEmbeddings := knownEmbeddings a @ [concat vec],
                   total := total a + 1 \<rparr>"
      from pi Inr Some vn have out: "image_output P self p = [(concat vec, name)]"
        by (simp add: image_output_def)
      have len: "length (knownEmbeddings ?a) = length (knownNames ?a)"
        using Cons.prems(1) by simp
      from pi Inr Some vn Cons.prems(2)
      have "batch_loop P self ps ?a = (Inr a', snd (batch_loop P self ps ?a))"
        by (cases "batch_loop P self ps ?a") simp
      from Cons.IH [OF len this] out Cons.prems(1) show ?thesis by simp
    qed
  qed
qed

lemma batch_loop_completes:
  "\<forall>p \<in> set ps. \<exists>r. fst (ProcessImage P self p) = Inr r \<Longrightarrow>
     \<exists>a' evs. batch_loop P self ps a = (Inr a', evs)"
proof (induction ps arbitrary: a)
  case Nil
  show ?case by (simp add: okW_def)
next
  case (Cons p ps)
  from Cons.prems obtain r where r: "fst (ProcessImage P self p) = Inr r" by auto
  from Cons.prems have rest: "\<forall>q \<in> set ps. \<exists>r. fst (ProcessImage P self q) = Inr r" by simp
  show ?case
  proof (cases r)
    case None
    from Cons.IH [OF rest, of a] obtain a' evs where bl: "batch_loop P self ps a = (Inr a', evs)"
      by blast
    from r None have sk: "fst (ProcessImage P self p) = Inr None" by simp
    show ?thesis unfolding batch_loop_skip [OF sk] bl by simp
  next
    case (Some vn)
    obtain vec name where vn: "vn = (vec, name)" by (cases vn)
    let ?a = "a\<lparr> knownNames := knownNames a @ [name],
                 knownEmbeddings := knownEmbeddings a @ [concat vec],
                 total := total a + 1 \<rparr>"
    from Cons.IH [OF rest, of ?a] obtain a' evs where bl: "batch_loop P self ps ?a = (Inr a', evs)"
      by blast
    from r Some vn have su: "fst (ProcessImage P self p) = Inr (Some (vec, name))" by simp
    show ?thesis unfolding batch_loop_success [OF su] Let_def bl by simp
  qed
qed

lemma batch_loop_all_returned:
  assumes "batch_loop P self ps a = (Inr a', evs)" and "p \<in> set ps"
  shows "\<exists>r. fst (ProcessImage P self p) = Inr r"
proof (cases "fst (ProcessImage P self p)")
  case (Inl e)
  from batch_loop_abort [OF assms(2) Inl, of a] assms(1) show ?thesis by simp
next
  case (Inr r)
  then show ?thesis by blast
qed

lemma mset_concat_map:
  "mset xs = mset ys \<Longrightarrow> mset (concat (map f xs)) = mset (concat (map f ys))"
proof -
  assume eq: "mset xs = mset ys"
  have *: "mset (concat (map f zs)) = (\<Sum>z\<in>#mset zs. mset (f z))" for zs
    by (induction zs) simp_all
  show ?thesis by (simp add: * eq)
qed

lemma cv2_resize_listing:
  "cv2_resize (P\<lparr> list_images := L \<rparr>) img dsize = cv2_resize P img dsize"
  by (simp add: cv2_resize_def split: prod.splits)

lemma imutils_resize_listing:
  "imutils_resize (P\<lparr> list_images := L \<rparr>) io w = imutils_resize P io w"
  by (cases io) (simp_all add: imutils_resize_def Let_def cv2_resize_listing)

lemma astype_int_listing:
  "astype_int (P\<lparr> list_images := L \<rparr>) x = astype_int P x"
  by (simp add: astype_int_def Let_def)

lemma denormalize_listing:
  "denormalize (P\<lparr> list_images := L \<rparr>) row w h = denormalize P row w h"
  by (simp add: denormalize_def astype_int_listing)

lemma located_listing:
  "located (P\<lparr> list_images := L \<rparr>) img name r = located P img name r"
  by (simp add: located_def denormalize_listing cong: sum.case_cong option.case_cong)

lemma blobs_listing:
  "detector_blob (P\<lparr> list_images := L \<rparr>) small = detector_blob P small"
  "face_blob (P\<lparr> list_images := L \<rparr>) face = face_blob P face"
  by (simp_all add: detector_blob_def face_blob_def)

lemma ProcessImage_detect_listing:
  "ProcessImage_detect (P\<lparr> list_images := L \<rparr>) self imagePath
     = ProcessImage_detect P self imagePath"
  by (simp add: ProcessImage_detect_char imutils_resize_listing cv2_resize_listing blobs_listing
      located_listing cong: sum.case_cong)

lemma ExtractEmbedding_listing:
  "ExtractEmbedding (P\<lparr> list_images := L \<rparr>) self img sx ex sy ey
     = ExtractEmbedding P self img sx ex sy ey"
  by (simp add: ExtractEmbedding_char blobs_listing)

lemma ProcessImage_listing:
  "ProcessImage (P\<lparr> list_images := L \<rparr>) self imagePath = ProcessImage P self imagePath"
  unfolding ProcessImage_def ProcessImage_detect_listing ExtractEmbedding_listing
  by (rule refl)

lemma batch_loop_listing:
  "batch_loop (P\<lparr> list_images := L \<rparr>) self ps a = batch_loop P self ps a"
  by (induction ps arbitrary: a) (simp_all add: ProcessImage_listing)

lemma ProcessFolders_InrD:
  assumes "ProcessFolders P self d = (Inr data, evs)"
  shows "\<exists>a e1. batch_loop P self (list_images P (DATASET self))
                   \<lparr> knownEmbeddings = [], knownNames = [], total = 1 \<rparr> = (Inr a, e1) \<and>
                 data = \<lparr> embeddings = knownEmbeddings a, names = knownNames a \<rparr> \<and>
                 writable P (EMBEDDING_OUTPUT self)"
proof -
  let ?ps = "list_images P (DATASET self)"
  let ?init = "\<lparr> knownEmbeddings = [], knownNames = [], total = 1 \<rparr>"
  from assms have "bindW (batch_loop P self ?ps ?init) (\<lambda>a.
         (let data = \<lparr> embeddings = knownEmbeddings a, names = knownNames a \<rparr>
          in if writable P (EMBEDDING_OUTPUT self) then
               bindW (logW (FileWrite (EMBEDDING_OUTPUT self) data)) (\<lambda>_. okW data)
             else failW OSError)) = (Inr data, evs)"
    by (simp add: ProcessFolders_def Let_def)
  from bindW_InrD [OF this] obtain a e1 e2 where
    bl: "batch_loop P self ?ps ?init = (Inr a, e1)" and
    fin: "(let data = \<lparr> embeddings = knownEmbeddings a, names = knownNames a \<rparr>
          in if writable P (EMBEDDING_OUTPUT self) then
               bindW (logW (FileWrite (EMBEDDING_OUTPUT self) data)) (\<lambda>_. okW data)
             else failW OSError) = (Inr data, e2)"
    by blast
  from fin have "data = \<lparr> embeddings = knownEmbeddings a, names = knownNames a \<rparr>
      \<and> writable P (EMBEDDING_OUTPUT self)"
    by (auto simp: Let_def okW_def failW_def split: if_splits)
  with bl show ?thesis by blast
qed

lemma ProcessFolders_InrI:
  assumes "batch_loop P self (list_images P (DATASET self))
             \<lparr> knownEmbeddings = [], knownNames = [], total = 1 \<rparr> = (Inr a, e1)"
    and "writable P (EMBEDDING_OUTPUT self)"
  shows "ProcessFolders P self d =
           (Inr \<lparr> embeddings = knownEmbeddings a, names = knownNames a \<rparr>,
            e1 @ [FileWrite (EMBEDDING_OUTPUT self)
                    \<lparr> embeddings = knownEmbeddings a, names = knownNames a \<rparr>])"
  unfolding ProcessFolders_def Let_def assms(1) using assms(2) by (simp add: okW_def)

lemma demo_centre_a_png:
  "ProcessImage demo_platform (demo_extractor dir [demo_centre]) ''faces/alice/a.png'' =
     (Inr (Some ([[200, 300]], ''alice'')),
      [Imread ''faces/alice/a.png'', DetectorForward [300, 300], EmbedderForward [200, 300]])"
  by (simp add: demo_simps demo_centre_def)

lemma demo_centre_b_png:
  "ProcessImage demo_platform (demo_extractor dir [demo_centre]) ''faces/bob/b.png'' =
     (Inr (Some ([[150, 300]], ''bob'')),
      [Imread ''faces/bob/b.png'', DetectorForward [300, 300], EmbedderForward [150, 300]])"
  by (simp add: demo_simps demo_centre_def)

lemma demo_centre_batch:
  "ProcessFolders demo_platform (demo_extractor ''faces'' [demo_centre]) imageFolder =
     (Inr \<lparr> embeddings = [[200, 300], [150, 300]], names = [''alice'', ''bob''] \<rparr>,
      [Imread ''faces/alice/a.png'', DetectorForward [300, 300], EmbedderForward [200, 300],
       Imread ''faces/bob/b.png'', DetectorForward [300, 300], EmbedderForward [150, 300],
       FileWrite ''out.pickle''
         \<lparr> embeddings = [[200, 300], [150, 300]], names = [''alice'', ''bob''] \<rparr>])"
  unfolding ProcessFolders_def Let_def demo_faces_listing
  by (simp add: demo_centre_a_png demo_centre_b_png demo_output okW_def)

subsection \<open>Paths\<close>

lemma py_join_split: "py_join c (py_split c s) = s"
proof (induction s)
  case Nil
  show ?case by simp
next
  case (Cons x s)
  obtain p ps where sp: "py_split c s = p # ps"
    using py_split_nonempty [of c s] by (cases "py_split c s") auto
  show ?case
  proof (cases "x = c")
    case True
    with Cons sp show ?thesis by simp
  next
    case False
    with Cons sp show ?thesis by (cases ps) simp_all
  qed
qed

lemma py_split_parts: "p \<in> set (py_split c s) \<Longrightarrow> c \<notin> set p"
proof (induction s arbitrary: p)
  case Nil
  then show ?case by simp
next
  case (Cons x s)
  obtain q qs where sp: "py_split c s = q # qs"
    using py_split_nonempty [of c s] by (cases "py_split c s") auto
  show ?case
  proof (cases "x = c")
    case True
    with Cons.prems Cons.IH show ?thesis by auto
  next
    case False
    with Cons.prems sp have "p = x # q \<or> p \<in> set qs" by simp
    then show ?thesis
    proof
      assume "p = x # q"
      moreover have "c \<notin> set q" using Cons.IH [of q] sp by simp
      ultimately show ?thesis using False by simp
    next
      assume "p \<in> set qs"
      then show ?thesis using Cons.IH [of p] sp by simp
    qed
  qed
qed

lemma py_join_last_two:
  "py_join c (xs @ [a, b]) = (if xs = [] then [] else py_join c xs @ [c]) @ a @ c # b"
proof (induction xs rule: py_join.induct)
  case (1 c)
  show ?case by simp
next
  case (2 c x)
  show ?case by simp
next
  case (3 c x y zs)
  then show ?case by simp
qed

lemma py_index_penultimateD:
  assumes "py_index ys (- 2) = Inr a"
  shows "\<exists>xs b. ys = xs @ [a, b]"
proof -
  from assms have len: "2 \<le> length ys" and a: "a = ys ! (length ys - 2)"
    by (auto simp: py_index_def nat_diff_distrib' split: if_splits)
  let ?xs = "take (length ys - 2) ys"
  have "drop (length ys - 2) ys = [ys ! (length ys - 2), ys ! (length ys - 1)]"
  proof -
    have "drop (length ys - 2) ys = ys ! (length ys - 2) # drop (Suc (length ys - 2)) ys"
      using len by (intro Cons_nth_drop_Suc [symmetric]) simp
    moreover have "drop (Suc (length ys - 2)) ys = [ys ! (length ys - 1)]"
    proof -
      have s: "Suc (length ys - 2) = length ys - 1" using len by simp
      have "drop (length ys - 1) ys = ys ! (length ys - 1) # drop (Suc (length ys - 1)) ys"
        using len by (intro Cons_nth_drop_Suc [symmetric]) simp
      then show ?thesis using len by (simp add: s)
    qed
    ultimately show ?thesis by simp
  qed
  then have "ys = ?xs @ [a, ys ! (length ys - 1)]"
    using append_take_drop_id [of "length ys - 2" ys] a by simp
  then show ?thesis by blast
qed

lemma label_decomposition:
  assumes "py_index (py_split c s) (- 2) = Inr a"
  shows "\<exists>pre file. s = pre @ a @ c # file \<and> (pre = [] \<or> (\<exists>d. pre = d @ [c])) \<and>
           c \<notin> set a \<and> c \<notin> set file"
proof -
  from py_index_penultimateD [OF assms] obtain xs b where
    sp: "py_split c s = xs @ [a, b]" by blast
  let ?pre = "if xs = [] then [] else py_join c xs @ [c]"
  have "s = py_join c (xs @ [a, b])" using py_join_split [of c s] sp by simp
  then have s: "s = ?pre @ a @ c # b" by (simp only: py_join_last_two)
  have pre: "?pre = [] \<or> (\<exists>d. ?pre = d @ [c])" by simp
  have a: "c \<notin> set a" using py_split_parts [of a c s] sp by simp
  have b: "c \<notin> set b" using py_split_parts [of b c s] sp by simp
  from s pre a b show ?thesis by blast
qed
lemma split_where_nonempty: "split_where f xs \<noteq> []"
  by (induction xs) (auto split: list.splits)

lemma split_where_append:
  "f c \<Longrightarrow> split_where f (xs @ c # ys) = split_where f xs @ split_where f ys"
  by (induction xs) (auto simp: split_where_nonempty split: list.splits)

lemma split_where_plain: "\<forall>ch \<in> set xs. \<not> f ch \<Longrightarrow> split_where f xs = [xs]"
  by (induction xs) auto

lemma split_where_last_two:
  assumes "path = pre @ name @ c # fname"
    and "pre = [] \<or> (\<exists>d. pre = d @ [c])"
    and "f c" and "\<forall>ch \<in> set name. \<not> f ch" and "\<forall>ch \<in> set fname. \<not> f ch"
  shows "\<exists>xs. split_where f path = xs @ [name, fname]"
proof -
  have tail: "split_where f (name @ c # fname) = [name, fname]"
    using assms(3,4,5) by (simp add: split_where_append split_where_plain)
  show ?thesis
  proof (cases "pre = []")
    case True
    with assms(1) tail show ?thesis by simp
  next
    case False
    with assms(2) obtain d where "pre = d @ [c]" by blast
    with assms(1) have "path = d @ c # (name @ c # fname)" by simp
    then have "split_where f path = split_where f d @ [name, fname]"
      using tail assms(3) by (simp only: split_where_append)
    then show ?thesis by blast
  qed
qed

lemma parent_directory_name_last_two:
  assumes "split_where f path = xs @ [name, fname]"
    and "name \<noteq> []" "name \<noteq> ''.''" "fname \<noteq> []" "fname \<noteq> ''.''"
    and "''..'' \<notin> set (split_where f path)"
  shows "parent_directory_name f path = Some name"
proof -
  let ?ok = "\<lambda>p::string. p \<noteq> [] \<and> p \<noteq> ''.''"
  have e: "filter ?ok (split_where f path) = filter ?ok xs @ [name, fname]"
    using assms(1-5) by simp
  have nd: "''..'' \<notin> set (filter ?ok (split_where f path))"
    using assms(6) by simp
  have len: "\<not> length (filter ?ok (split_where f path)) < 2" by (simp add: e)
  have nth: "filter ?ok (split_where f path) ! (length (filter ?ok (split_where f path)) - 2) = name"
    by (simp add: e nth_append)
  show ?thesis
    unfolding parent_directory_name_def Let_def using nd len nth by simp
qed

lemma py_split_last_two:
  assumes "path = pre @ name @ c # fname"
    and "pre = [] \<or> (\<exists>d. pre = d @ [c])"
    and "c \<notin> set name" and "c \<notin> set fname"
  shows "\<exists>xs. py_split c path = xs @ [name, fname]"
proof -
  have tail: "py_split c (name @ c # fname) = [name, fname]"
    using assms(3,4) by (simp add: py_split_append py_split_no_sep)
  show ?thesis
  proof (cases "pre = []")
    case True
    with assms(1) tail show ?thesis by simp
  next
    case False
    with assms(2) obtain d where "pre = d @ [c]" by blast
    with assms(1) have "path = d @ c # (name @ c # fname)" by simp
    then have "py_split c path = py_split c d @ [name, fname]"
      using tail by (simp only: py_split_append)
    then show ?thesis by blast
  qed
qed

lemma demo_face_blob: "face_blob demo_platform face = [real (nrows face), real (ncols face)]"
  by (simp add: face_blob_def demo_platform_def)

lemma demo_embedder: "embedder (demo_extractor dir rows) b = [b]"
  by (simp add: demo_extractor_def)

lemma astype_int_in_range:
  "int_min P \<le> (if 0 \<le> x then \<lfloor>x\<rfloor> else \<lceil>x\<rceil>) \<and>
   (if 0 \<le> x then \<lfloor>x\<rfloor> else \<lceil>x\<rceil>) \<le> int_max P \<Longrightarrow>
     astype_int P x = (if 0 \<le> x then \<lfloor>x\<rfloor> else \<lceil>x\<rceil>)"
  by (simp add: astype_int_def Let_def)

lemma accepted_box_facts:
  assumes "ProcessImage_detect P self imagePath = (Inr (Some (img, name, box)), evs)"
  shows "GetImage P imagePath = (Inr img, [Imread imagePath]) \<and>
         ncols img = 600 \<and>
         (\<exists>orig. imread P imagePath = Some orig \<and>
            nrows img = scaled_height P (nrows orig) (ncols orig) 600) \<and>
         (\<exists>small rows r1 r0 i.
            cv2_resize P img (300, 300) = Inr small \<and>
            detector self (detector_blob P small) = (rows # r1) # r0 \<and>
            np_argmax (map det_conf rows) = Inr i \<and> i < length rows \<and>
            det_conf (rows ! i) > 0.5 \<and>
            box = (astype_int P (det_x1 (rows ! i) * real (ncols img)),
                   astype_int P (det_y1 (rows ! i) * real (nrows img)),
                   astype_int P (det_x2 (rows ! i) * real (ncols img)),
                   astype_int P (det_y2 (rows ! i) * real (nrows img))))"
proof (cases "py_index (py_split (path_sep P) imagePath) (- 2)")
  case (Inl e)
  with assms show ?thesis by (simp add: ProcessImage_detect_char)
next
  case name: (Inr name0)
  show ?thesis
  proof (cases "imutils_resize P (imread P imagePath) 600")
    case (Inl e)
    with assms name show ?thesis by (simp add: ProcessImage_detect_char)
  next
    case im: (Inr im)
    show ?thesis
    proof (cases "cv2_resize P im (300, 300)")
      case (Inl e)
      with assms name im show ?thesis by (simp add: ProcessImage_detect_char)
    next
      case small: (Inr small)
      with assms name im
      have loc: "located P im name0 (select_row (detector self (detector_blob P small)))
              = Inr (Some (img, name, box))"
        by (simp add: ProcessImage_detect_char)
      from located_SomeD [OF loc] have eq: "img = im" by simp
      from located_Some_row [OF loc] obtain row where
        row: "select_row (detector self (detector_blob P small)) = Inr (Some row)"
        and box: "box = denormalize P row (ncols im) (nrows im)" by blast
      from select_row_SomeD [OF row] obtain rows r1 r0 i where
        sel: "detector self (detector_blob P small) = (rows # r1) # r0"
             "np_argmax (map det_conf rows) = Inr i" "i < length rows"
             "row = rows ! i" "det_conf row > 0.5" by blast
      from imutils_resize_InrD [OF im] obtain orig where
        orig: "imread P imagePath = Some orig" "ncols im = 600"
              "nrows im = scaled_height P (nrows orig) (ncols orig) 600" by blast
      have g: "GetImage P imagePath = (Inr img, [Imread imagePath])"
        by (simp add: GetImage_def im eq pureW_def)
      have b: "box = (astype_int P (det_x1 (rows ! i) * real (ncols img)),
                   astype_int P (det_y1 (rows ! i) * real (nrows img)),
                   astype_int P (det_x2 (rows ! i) * real (ncols img)),
                   astype_int P (det_y2 (rows ! i) * real (nrows img)))"
        using box sel(4) eq by (simp add: denormalize_def)
      from g orig small sel b eq show ?thesis by auto
    qed
  qed
qed

section \<open>The claims\<close>

subsection \<open>C1: a file that does not decode\<close>




subsection \<open>C2: the folder that is listed\<close>

text \<open>
  C2 says that the images processed are those under the argument of \<open>ProcessFolders\<close>.
  The docstring of the method says the same of its parameter \<open>imageFolder\<close>, but the body
  lists \<open>self._DATASET\<close>.  On an extractor built for \<open>faces\<close>, the call
  \<open>ProcessFolders(''ds'')\<close> reads the two photographs of \<open>faces\<close> and none of the three
  files of \<open>ds\<close>.
\<close>

theorem ProcessFolders_lists_DATASET_not_argument:
  "list_images demo_platform ''ds'' =
     [''ds/alice/a.png'', ''ds/bob/bad.png'', ''ds/bob/b.png''] \<and>
   DATASET (demo_extractor ''faces'' [demo_face]) = ''faces'' \<and>
   ProcessFolders demo_platform (demo_extractor ''faces'' [demo_face]) ''ds'' =
     (Inr \<lparr> embeddings = [[20, 240]], names = [''alice''] \<rparr>,
      [Imread ''faces/alice/a.png'', DetectorForward [300, 300], EmbedderForward [20, 240],
       Imread ''faces/bob/b.png'', DetectorForward [300, 300],
       FileWrite ''out.pickle'' \<lparr> embeddings = [[20, 240]], names = [''alice''] \<rparr>])"
  by (simp add: demo_faces_batch) (simp add: demo_platform_def demo_extractor_def)

subsection \<open>C3: the two output sequences\<close>

text \<open>
  C3.  When \<open>ProcessFolders\<close> completes, the serialized \<open>embeddings\<close> and \<open>names\<close> have
  the same length, and that length is the number of images listed minus the number of
  images skipped.  The same holds at every point of the loop: after any \<open>k\<close> of the listed
  images the two accumulators have the same length, \<open>k\<close> minus the number of images
  skipped among those \<open>k\<close>.
\<close>

theorem ProcessFolders_lengths:
  assumes "ProcessFolders P self imageFolder = (Inr data, evs)"
  shows "length (embeddings data) = length (names data) \<and>
         length (names data) =
           length (list_images P (DATASET self))
             - length (filter (skipped P self) (list_images P (DATASET self))) \<and>
         (\<forall>k \<le> length (list_images P (DATASET self)).
            \<exists>a evs'.
              batch_loop P self (take k (list_images P (DATASET self)))
                \<lparr> knownEmbeddings = [], knownNames = [], total = 1 \<rparr> = (Inr a, evs') \<and>
              length (knownEmbeddings a) = length (knownNames a) \<and>
              length (knownNames a) =
                k - length (filter (skipped P self) (take k (list_images P (DATASET self)))))"
proof -
  let ?ps = "list_images P (DATASET self)"
  let ?init = "\<lparr> knownEmbeddings = [], knownNames = [], total = 1 \<rparr>"
  from assms have "bindW (batch_loop P self ?ps ?init) (\<lambda>a.
         (let data = \<lparr> embeddings = knownEmbeddings a, names = knownNames a \<rparr>
          in if writable P (EMBEDDING_OUTPUT self) then
               bindW (logW (FileWrite (EMBEDDING_OUTPUT self) data)) (\<lambda>_. okW data)
             else failW OSError)) = (Inr data, evs)"
    by (simp add: ProcessFolders_def Let_def)
  from bindW_InrD [OF this] obtain a e1 e2 where
    bl: "batch_loop P self ?ps ?init = (Inr a, e1)" and
    fin: "(let data = \<lparr> embeddings = knownEmbeddings a, names = knownNames a \<rparr>
          in if writable P (EMBEDDING_OUTPUT self) then
               bindW (logW (FileWrite (EMBEDDING_OUTPUT self) data)) (\<lambda>_. okW data)
             else failW OSError) = (Inr data, e2)"
    by blast
  from fin have data: "data = \<lparr> embeddings = knownEmbeddings a, names = knownNames a \<rparr>"
    by (auto simp: Let_def okW_def failW_def split: if_splits)
  from batch_loop_counts [OF bl]
  have c: "length (knownNames a) + length (filter (skipped P self) ?ps) = length ?ps"
          "length (knownEmbeddings a) + length (filter (skipped P self) ?ps) = length ?ps"
    by simp_all
  have pre: "\<exists>b evs'. batch_loop P self (take k ?ps) ?init = (Inr b, evs') \<and>
              length (knownEmbeddings b) = length (knownNames b) \<and>
              length (knownNames b) = k - length (filter (skipped P self) (take k ?ps))"
    if k: "k \<le> length ?ps" for k
  proof -
    from batch_loop_prefix [OF bl, of k] obtain b evs' where
      b: "batch_loop P self (take k ?ps) ?init = (Inr b, evs')" by blast
    from batch_loop_counts [OF b] k
    have "length (knownNames b) + length (filter (skipped P self) (take k ?ps)) = k"
         "length (knownEmbeddings b) + length (filter (skipped P self) (take k ?ps)) = k"
      by simp_all
    with b show ?thesis by auto
  qed
  from c data pre show ?thesis by auto
qed

theorem ProcessFolders_lengths_witness:
  "ProcessFolders demo_platform (demo_extractor ''faces'' [demo_face]) ''faces'' =
     (Inr \<lparr> embeddings = [[20, 240]], names = [''alice''] \<rparr>,
      [Imread ''faces/alice/a.png'', DetectorForward [300, 300], EmbedderForward [20, 240],
       Imread ''faces/bob/b.png'', DetectorForward [300, 300],
       FileWrite ''out.pickle'' \<lparr> embeddings = [[20, 240]], names = [''alice''] \<rparr>]) \<and>
   length (list_images demo_platform (DATASET (demo_extractor ''faces'' [demo_face]))) = 2 \<and>
   length (filter (skipped demo_platform (demo_extractor ''faces'' [demo_face]))
             (list_images demo_platform (DATASET (demo_extractor ''faces'' [demo_face])))) = 1 \<and>
   (\<exists>a evs'.
      batch_loop demo_platform (demo_extractor ''faces'' [demo_face])
        (take 1 (list_images demo_platform (DATASET (demo_extractor ''faces'' [demo_face]))))
        \<lparr> knownEmbeddings = [], knownNames = [], total = 1 \<rparr> = (Inr a, evs') \<and>
      length (knownEmbeddings a) = length (knownNames a) \<and>
      length (knownNames a) = 1)"
proof -
  let ?S = "demo_extractor ''faces'' [demo_face]"
  have run: "ProcessFolders demo_platform ?S ''faces'' =
     (Inr \<lparr> embeddings = [[20, 240]], names = [''alice''] \<rparr>,
      [Imread ''faces/alice/a.png'', DetectorForward [300, 300], EmbedderForward [20, 240],
       Imread ''faces/bob/b.png'', DetectorForward [300, 300],
       FileWrite ''out.pickle'' \<lparr> embeddings = [[20, 240]], names = [''alice''] \<rparr>])"
    by (rule demo_faces_batch)
  have sk: "length (filter (skipped demo_platform ?S) (list_images demo_platform (DATASET ?S))) = 1"
    by (simp add: demo_faces_listing skipped_def demo_faces_a_png demo_faces_b_png)
  have k: "(1::nat) \<le> length (list_images demo_platform (DATASET ?S))"
    by (simp add: demo_faces_listing)
  have f1: "filter (skipped demo_platform ?S) (take 1 (list_images demo_platform (DATASET ?S))) = []"
    by (simp add: demo_faces_listing skipped_def demo_faces_a_png)
  from ProcessFolders_lengths [OF run] k
  have "\<exists>a evs'.
      batch_loop demo_platform ?S (take 1 (list_images demo_platform (DATASET ?S)))
        \<lparr> knownEmbeddings = [], knownNames = [], total = 1 \<rparr> = (Inr a, evs') \<and>
      length (knownEmbeddings a) = length (knownNames a) \<and>
      length (knownNames a) =
        1 - length (filter (skipped demo_platform ?S) (take 1 (list_images demo_platform (DATASET ?S))))"
    by blast
  with run sk f1 show ?thesis by (simp add: demo_faces_listing)
qed

subsection \<open>C4: no detection above the threshold\<close>

text \<open>
  C4 includes the case of zero detections.  The guard \<open>len(detections) > 0\<close>, commented
  "ensure at least one face was found", measures the first axis of an array of shape
  \<open>(1, 1, N, 7)\<close>, so it holds for \<open>N = 0\<close> as well, and \<open>np.argmax\<close> of the empty
  column raises \<open>ValueError\<close> where the claim expects "no result".  With at least one
  candidate and no confidence above 0.5 the method does return \<open>None\<close> without calling
  the embedder (\<open>select_row_low_confidence\<close>, \<open>no_detection_no_embedding\<close>).
\<close>

theorem zero_candidates_raise:
  "detector (demo_extractor ''faces'' []) [300, 300] = [[[]]] \<and>
   ProcessImage demo_platform (demo_extractor ''faces'' []) ''faces/alice/a.png'' =
     (Inl ValueError, [Imread ''faces/alice/a.png'', DetectorForward [300, 300]])"
  by (simp add: demo_simps)

subsection \<open>C5: crops smaller than 20 pixels\<close>

text \<open>
  C5.  \<open>ExtractEmbedding\<close> returns \<open>None\<close> without a forward pass of the embedder when
  the cropped region is less than 20 pixels wide or less than 20 pixels high, and runs the
  embedder on the blob of the crop otherwise.  When \<open>ProcessImage\<close> has accepted a box
  whose crop is that small, it returns \<open>None\<close> and causes no event beyond those of the
  detection.
\<close>

theorem small_crop_rejected:
  "ExtractEmbedding P self img startX endX startY endY =
     (if ncols (crop img startY endY startX endX) < 20
           \<or> nrows (crop img startY endY startX endX) < 20
      then (Inr None, [])
      else (Inr (Some (embedder self (face_blob P (crop img startY endY startX endX)))),
            [EmbedderForward (face_blob P (crop img startY endY startX endX))])) \<and>
   (ProcessImage_detect P self imagePath
        = (Inr (Some (img, name, startX, startY, endX, endY)), evs) \<longrightarrow>
    ncols (crop img startY endY startX endX) < 20
      \<or> nrows (crop img startY endY startX endX) < 20 \<longrightarrow>
    ProcessImage P self imagePath = (Inr None, evs))"
proof (intro conjI impI)
  show "ExtractEmbedding P self img startX endX startY endY =
     (if ncols (crop img startY endY startX endX) < 20
           \<or> nrows (crop img startY endY startX endX) < 20
      then (Inr None, [])
      else (Inr (Some (embedder self (face_blob P (crop img startY endY startX endX)))),
            [EmbedderForward (face_blob P (crop img startY endY startX endX))]))"
    unfolding ExtractEmbedding_char by (simp add: crop_def)
next
  assume d: "ProcessImage_detect P self imagePath
        = (Inr (Some (img, name, startX, startY, endX, endY)), evs)"
    and s: "ncols (crop img startY endY startX endX) < 20
      \<or> nrows (crop img startY endY startX endX) < 20"
  show "ProcessImage P self imagePath = (Inr None, evs)"
    unfolding ProcessImage_after_detect [OF d] using s by simp
qed

theorem small_crop_rejected_witness:
  "ProcessImage_detect demo_platform (demo_extractor ''faces'' [demo_face]) ''faces/bob/b.png'' =
     (Inr (Some (solid 300 600, ''bob'', 60, 30, 300, 45)),
      [Imread ''faces/bob/b.png'', DetectorForward [300, 300]]) \<and>
   ncols (crop (solid 300 600) 30 45 60 300) = 240 \<and>
   nrows (crop (solid 300 600) 30 45 60 300) = 15 \<and>
   ExtractEmbedding demo_platform (demo_extractor ''faces'' [demo_face])
     (solid 300 600) 60 300 30 45 = (Inr None, []) \<and>
   ProcessImage demo_platform (demo_extractor ''faces'' [demo_face]) ''faces/bob/b.png'' =
     (Inr None, [Imread ''faces/bob/b.png'', DetectorForward [300, 300]])"
proof -
  have w: "ncols (crop (solid 300 600) 30 45 60 300) = 240"
    and h: "nrows (crop (solid 300 600) 30 45 60 300) = 15"
    by (simp_all add: crop_def solid_def slice_len_def slice_bound_def)
  from small_crop_rejected [of demo_platform "demo_extractor ''faces'' [demo_face]"
      "solid 300 600" 60 300 30 45 "''faces/bob/b.png''" "''bob''"
      "[Imread ''faces/bob/b.png'', DetectorForward [300, 300]]"]
    demo_detect_b_png w h
  show ?thesis by simp
qed

subsection \<open>C6: the label\<close>

text \<open>
  C6 as stated fails.  The label is \<open>imagePath.split(os.path.sep)[-2]\<close>, the text between
  the last two separators.  On \<open>faces/alice//a.png\<close> that text is empty and on
  \<open>faces/alice/./a.png\<close> it is \<open>.\<close>; both paths name a file in the directory
  \<open>alice\<close>, and \<open>ProcessImage\<close> succeeds on both.
\<close>

theorem label_not_parent_directory_counterexample:
  "ProcessImage demo_any_file (demo_extractor ''faces'' [demo_face]) ''faces/alice//a.png'' =
     (Inr (Some ([[20, 240]], '''')),
      [Imread ''faces/alice//a.png'', DetectorForward [300, 300], EmbedderForward [20, 240]]) \<and>
   parent_directory_name (\<lambda>ch. ch = path_sep demo_any_file) ''faces/alice//a.png'' = Some ''alice'' \<and>
   ProcessImage demo_any_file (demo_extractor ''faces'' [demo_face]) ''faces/alice/./a.png'' =
     (Inr (Some ([[20, 240]], ''.'')),
      [Imread ''faces/alice/./a.png'', DetectorForward [300, 300], EmbedderForward [20, 240]]) \<and>
   parent_directory_name (\<lambda>ch. ch = path_sep demo_any_file) ''faces/alice/./a.png'' = Some ''alice''"
proof (intro conjI)
  show "ProcessImage demo_any_file (demo_extractor ''faces'' [demo_face]) ''faces/alice//a.png'' =
     (Inr (Some ([[20, 240]], '''')),
      [Imread ''faces/alice//a.png'', DetectorForward [300, 300], EmbedderForward [20, 240]])"
    by (simp add: demo_any_file_def demo_simps)
  show "ProcessImage demo_any_file (demo_extractor ''faces'' [demo_face]) ''faces/alice/./a.png'' =
     (Inr (Some ([[20, 240]], ''.'')),
      [Imread ''faces/alice/./a.png'', DetectorForward [300, 300], EmbedderForward [20, 240]])"
    by (simp add: demo_any_file_def demo_simps)
  have s: "path_sep demo_any_file = CHR ''/''"
    by (simp add: demo_any_file_def demo_platform_def)
  show "parent_directory_name (\<lambda>ch. ch = path_sep demo_any_file) ''faces/alice//a.png'' = Some ''alice''"
    unfolding s by (simp add: parent_directory_name_def)
  show "parent_directory_name (\<lambda>ch. ch = path_sep demo_any_file) ''faces/alice/./a.png'' = Some ''alice''"
    unfolding s by (simp add: parent_directory_name_def)
qed

text \<open>
  C6, amended.  When \<open>ProcessImage\<close> succeeds, the label it returns is the text between
  the last two separators of the path (from the start of the path when it has only one),
  character for character: the path ends in the label, a separator and a file name, and
  however the path is read in this way the name found is the label.  The label is the
  name of the directory that holds the file whenever that text and the file name are
  proper names (not empty, not \<open>.\<close>, not \<open>..\<close>, and free of every character that the
  file system takes as a separator) and no component of the path is \<open>..\<close>.
\<close>

theorem label_between_last_separators:
  assumes "ProcessImage P self imagePath = (Inr (Some (vec, label)), evs)"
  shows "(\<exists>pre file.
            imagePath = pre @ label @ path_sep P # file \<and>
            (pre = [] \<or> (\<exists>d. pre = d @ [path_sep P])) \<and>
            path_sep P \<notin> set label \<and> path_sep P \<notin> set file) \<and>
         (\<forall>pre name file.
            imagePath = pre @ name @ path_sep P # file \<and>
            (pre = [] \<or> (\<exists>d. pre = d @ [path_sep P])) \<and>
            path_sep P \<notin> set name \<and> path_sep P \<notin> set file \<longrightarrow>
              label = name \<and>
              (\<forall>is_sep.
                 is_sep (path_sep P) \<and>
                 (\<forall>ch \<in> set name. \<not> is_sep ch) \<and> (\<forall>ch \<in> set file. \<not> is_sep ch) \<and>
                 name \<noteq> [] \<and> name \<noteq> ''.'' \<and> name \<noteq> ''..'' \<and>
                 file \<noteq> [] \<and> file \<noteq> ''.'' \<and> file \<noteq> ''..'' \<and>
                 ''..'' \<notin> set (split_where is_sep imagePath) \<longrightarrow>
                   parent_directory_name is_sep imagePath = Some label))"
proof (intro conjI allI impI)
  show "\<exists>pre file.
            imagePath = pre @ label @ path_sep P # file \<and>
            (pre = [] \<or> (\<exists>d. pre = d @ [path_sep P])) \<and>
            path_sep P \<notin> set label \<and> path_sep P \<notin> set file"
    by (rule label_decomposition [OF ProcessImage_label [OF assms]])
next
  fix pre name fname
  let ?c = "path_sep P"
  assume h: "imagePath = pre @ name @ ?c # fname \<and>
            (pre = [] \<or> (\<exists>d. pre = d @ [?c])) \<and> ?c \<notin> set name \<and> ?c \<notin> set fname"
  from h py_split_last_two [of imagePath pre name ?c fname]
  obtain xs where "py_split ?c imagePath = xs @ [name, fname]" by blast
  with ProcessImage_label [OF assms] show "label = name"
    by (simp add: py_index_penultimate)
next
  fix pre name fname is_sep
  let ?c = "path_sep P"
  assume h: "imagePath = pre @ name @ ?c # fname \<and>
            (pre = [] \<or> (\<exists>d. pre = d @ [?c])) \<and> ?c \<notin> set name \<and> ?c \<notin> set fname"
    and g: "is_sep ?c \<and>
                 (\<forall>ch \<in> set name. \<not> is_sep ch) \<and> (\<forall>ch \<in> set fname. \<not> is_sep ch) \<and>
                 name \<noteq> [] \<and> name \<noteq> ''.'' \<and> name \<noteq> ''..'' \<and>
                 fname \<noteq> [] \<and> fname \<noteq> ''.'' \<and> fname \<noteq> ''..'' \<and>
                 ''..'' \<notin> set (split_where is_sep imagePath)"
  from h py_split_last_two [of imagePath pre name ?c fname]
  obtain xs where "py_split ?c imagePath = xs @ [name, fname]" by blast
  with ProcessImage_label [OF assms] have eq: "label = name"
    by (simp add: py_index_penultimate)
  from h g split_where_last_two [of imagePath pre name ?c fname is_sep]
  obtain ys where sp: "split_where is_sep imagePath = ys @ [name, fname]" by blast
  from g have "parent_directory_name is_sep imagePath = Some name"
    by (intro parent_directory_name_last_two [OF sp]) simp_all
  with eq show "parent_directory_name is_sep imagePath = Some label" by simp
qed

theorem label_between_last_separators_witness:
  "ProcessImage demo_platform (demo_extractor ''faces'' [demo_face]) ''faces/alice/a.png'' =
     (Inr (Some ([[20, 240]], ''alice'')),
      [Imread ''faces/alice/a.png'', DetectorForward [300, 300], EmbedderForward [20, 240]]) \<and>
   ''faces/alice/a.png'' = ''faces/'' @ ''alice'' @ path_sep demo_platform # ''a.png'' \<and>
   ''faces/'' = ''faces'' @ [path_sep demo_platform] \<and>
   path_sep demo_platform \<notin> set ''alice'' \<and> path_sep demo_platform \<notin> set ''a.png'' \<and>
   ''..'' \<notin> set (split_where (\<lambda>ch. ch = path_sep demo_platform) ''faces/alice/a.png'') \<and>
   snd (the (projr (fst (ProcessImage demo_platform (demo_extractor ''faces'' [demo_face])
                           ''faces/alice/a.png'')))) = ''alice'' \<and>
   parent_directory_name (\<lambda>ch. ch = path_sep demo_platform) ''faces/alice/a.png'' =
     Some (snd (the (projr (fst (ProcessImage demo_platform (demo_extractor ''faces'' [demo_face])
                           ''faces/alice/a.png'')))))"
proof -
  let ?S = "demo_extractor ''faces'' [demo_face]"
  let ?l = "snd (the (projr (fst (ProcessImage demo_platform ?S ''faces/alice/a.png''))))"
  let ?f = "\<lambda>ch. ch = path_sep demo_platform"
  have s: "path_sep demo_platform = CHR ''/''" by (simp add: demo_platform_def)
  have run: "ProcessImage demo_platform ?S ''faces/alice/a.png'' =
     (Inr (Some ([[20, 240]], ''alice'')),
      [Imread ''faces/alice/a.png'', DetectorForward [300, 300], EmbedderForward [20, 240]])"
    by (rule demo_faces_a_png)
  have 1: "''faces/alice/a.png'' = ''faces/'' @ ''alice'' @ path_sep demo_platform # ''a.png''"
    unfolding s by simp
  have h2: "''faces/'' = ''faces'' @ [path_sep demo_platform]"
    unfolding s by simp
  then have 2: "''faces/'' = [] \<or> (\<exists>d. ''faces/'' = d @ [path_sep demo_platform])"
    by (intro disjI2 exI)
  have 3: "path_sep demo_platform \<notin> set ''alice''" unfolding s by simp
  have 4: "path_sep demo_platform \<notin> set ''a.png''" unfolding s by simp
  have 5: "''..'' \<notin> set (split_where ?f ''faces/alice/a.png'')"
    unfolding s by simp
  have 6: "?f (path_sep demo_platform) \<and>
           (\<forall>ch \<in> set ''alice''. \<not> ?f ch) \<and> (\<forall>ch \<in> set ''a.png''. \<not> ?f ch) \<and>
           ''alice'' \<noteq> [] \<and> ''alice'' \<noteq> ''.'' \<and> ''alice'' \<noteq> ''..'' \<and>
           ''a.png'' \<noteq> [] \<and> ''a.png'' \<noteq> ''.'' \<and> ''a.png'' \<noteq> ''..'' \<and>
           ''..'' \<notin> set (split_where ?f ''faces/alice/a.png'')"
    using 5 unfolding s by simp
  have run': "ProcessImage demo_platform ?S ''faces/alice/a.png'' =
     (Inr (Some ([[20, 240]], ?l)),
      [Imread ''faces/alice/a.png'', DetectorForward [300, 300], EmbedderForward [20, 240]])"
    unfolding run by simp
  note t = conjunct2 [OF label_between_last_separators [OF run']]
  note u = mp [OF spec [OF spec [OF spec [OF t]], of "''faces/''" "''alice''" "''a.png''"]]
  have v: "?l = ''alice'' \<and>
           (\<forall>is_sep.
                 is_sep (path_sep demo_platform) \<and>
                 (\<forall>ch \<in> set ''alice''. \<not> is_sep ch) \<and> (\<forall>ch \<in> set ''a.png''. \<not> is_sep ch) \<and>
                 ''alice'' \<noteq> [] \<and> ''alice'' \<noteq> ''.'' \<and> ''alice'' \<noteq> ''..'' \<and>
                 ''a.png'' \<noteq> [] \<and> ''a.png'' \<noteq> ''.'' \<and> ''a.png'' \<noteq> ''..'' \<and>
                 ''..'' \<notin> set (split_where is_sep ''faces/alice/a.png'') \<longrightarrow>
                   parent_directory_name is_sep ''faces/alice/a.png'' = Some ?l)"
    by (rule u) (intro conjI 1 2 3 4)
  have 7: "?l = ''alice''" by (rule conjunct1 [OF v])
  have 8: "parent_directory_name ?f ''faces/alice/a.png'' = Some ?l"
    by (rule mp [OF spec [OF conjunct2 [OF v], of ?f] 6])
  show ?thesis by (intro conjI run 1 h2 3 4 5 7 8)
qed

subsection \<open>C7: the detection that is used\<close>



subsection \<open>C8: the sides that scale the box\<close>

text \<open>
  C8 as stated fails.  \<open>(h, w)\<close> is the shape of the image that \<open>GetImage\<close> returns,
  which \<open>imutils.resize\<close> has already brought to a width of 600.  For the photograph of
  1200 by 800 pixels and the box \<open>(0.25, 0.25, 0.75, 0.75)\<close> the code computes
  \<open>(150, 100, 450, 300)\<close>; the sides of the file give \<open>(300, 200, 900, 600)\<close>.
\<close>

theorem box_on_original_image_counterexample:
  "imread demo_platform ''faces/alice/a.png'' = Some (solid 800 1200) \<and>
   ncols (solid 800 1200) = 1200 \<and> nrows (solid 800 1200) = 800 \<and>
   ProcessImage_detect demo_platform (demo_extractor ''faces'' [demo_centre]) ''faces/alice/a.png'' =
     (Inr (Some (solid 400 600, ''alice'', 150, 100, 450, 300)),
      [Imread ''faces/alice/a.png'', DetectorForward [300, 300]]) \<and>
   denormalize demo_platform demo_centre 1200 800 = (300, 200, 900, 600) \<and>
   (150, 100, 450, 300) \<noteq> denormalize demo_platform demo_centre 1200 800"
proof -
  have d: "denormalize demo_platform demo_centre 1200 800 = (300, 200, 900, 600)"
    by (simp add: denormalize_def demo_centre_def demo_row_def astype_int_def demo_platform_def)
  have i: "imread demo_platform ''faces/alice/a.png'' = Some (solid 800 1200)"
    by (simp add: demo_platform_def)
  have s: "ncols (solid 800 1200) = 1200" "nrows (solid 800 1200) = 800"
    by (simp_all add: solid_def)
  from d i s demo_detect_centre show ?thesis by simp
qed

text \<open>
  C8, amended.  For every accepted detection the normalised corners are multiplied by the
  width and height of the image that \<open>GetImage\<close> returns, that is the decoded image
  after \<open>imutils.resize\<close> has brought it to a width of 600 and before the resize to 300
  by 300 for the detector.  Its height is what \<open>imutils\<close> computes from the sides of the
  file, \<open>int(h * (600 / float(w)))\<close> in \<open>float64\<close>.  The products are cast with
  \<open>astype("int")\<close>, which truncates towards zero wherever the result fits the integer
  type, to give \<open>(startX, startY, endX, endY)\<close>.  The row is the one \<open>np.argmax\<close>
  selects, with confidence above 0.5.
\<close>

theorem box_denormalized_on_resized_image:
  assumes "ProcessImage_detect P self imagePath = (Inr (Some (img, name, box)), evs)"
  shows "GetImage P imagePath = (Inr img, [Imread imagePath]) \<and>
         ncols img = 600 \<and>
         (\<exists>orig. imread P imagePath = Some orig \<and>
            nrows img = scaled_height P (nrows orig) (ncols orig) 600) \<and>
         (\<exists>small rows r1 r0 i.
            cv2_resize P img (300, 300) = Inr small \<and>
            detector self (detector_blob P small) = (rows # r1) # r0 \<and>
            np_argmax (map det_conf rows) = Inr i \<and> i < length rows \<and>
            det_conf (rows ! i) > 0.5 \<and>
            box = (astype_int P (det_x1 (rows ! i) * real (ncols img)),
                   astype_int P (det_y1 (rows ! i) * real (nrows img)),
                   astype_int P (det_x2 (rows ! i) * real (ncols img)),
                   astype_int P (det_y2 (rows ! i) * real (nrows img)))) \<and>
         (\<forall>x. int_min P \<le> (if 0 \<le> x then \<lfloor>x\<rfloor> else \<lceil>x\<rceil>) \<and>
              (if 0 \<le> x then \<lfloor>x\<rfloor> else \<lceil>x\<rceil>) \<le> int_max P \<longrightarrow>
              astype_int P x = (if 0 \<le> x then \<lfloor>x\<rfloor> else \<lceil>x\<rceil>))"
proof -
  note f = accepted_box_facts [OF assms]
  have t: "\<forall>x. int_min P \<le> (if 0 \<le> x then \<lfloor>x\<rfloor> else \<lceil>x\<rceil>) \<and>
              (if 0 \<le> x then \<lfloor>x\<rfloor> else \<lceil>x\<rceil>) \<le> int_max P \<longrightarrow>
              astype_int P x = (if 0 \<le> x then \<lfloor>x\<rfloor> else \<lceil>x\<rceil>)"
    by (intro allI impI) (rule astype_int_in_range)
  show ?thesis
    by (intro conjI conjunct1 [OF f] conjunct1 [OF conjunct2 [OF f]]
        conjunct1 [OF conjunct2 [OF conjunct2 [OF f]]]
        conjunct2 [OF conjunct2 [OF conjunct2 [OF f]]] t)
qed

theorem box_denormalized_on_resized_image_witness:
  "ProcessImage_detect demo_platform (demo_extractor ''faces'' [demo_centre]) ''faces/alice/a.png'' =
     (Inr (Some (solid 400 600, ''alice'', 150, 100, 450, 300)),
      [Imread ''faces/alice/a.png'', DetectorForward [300, 300]]) \<and>
   GetImage demo_platform ''faces/alice/a.png'' =
     (Inr (solid 400 600), [Imread ''faces/alice/a.png'']) \<and>
   ncols (solid 400 600) = 600 \<and>
   int_min demo_platform \<le> (150::int) \<and> (150::int) \<le> int_max demo_platform \<and>
   astype_int demo_platform (det_x1 demo_centre * 600) = 150"
proof -
  note t = box_denormalized_on_resized_image [OF demo_detect_centre]
  have a: "GetImage demo_platform ''faces/alice/a.png'' =
          (Inr (solid 400 600), [Imread ''faces/alice/a.png''])"
    by (rule conjunct1 [OF t])
  have b: "ncols (solid 400 600) = 600"
    by (rule conjunct1 [OF conjunct2 [OF t]])
  have x: "det_x1 demo_centre * 600 = 150"
    by (simp add: demo_centre_def demo_row_def)
  have lo: "int_min demo_platform \<le> (150::int)" and hi: "(150::int) \<le> int_max demo_platform"
    by (simp_all add: demo_platform_def)
  have r: "int_min demo_platform \<le> (if 0 \<le> (150::real) then \<lfloor>150::real\<rfloor> else \<lceil>150::real\<rceil>) \<and>
           (if 0 \<le> (150::real) then \<lfloor>150::real\<rfloor> else \<lceil>150::real\<rceil>) \<le> int_max demo_platform"
    using lo hi by simp
  have c0: "astype_int demo_platform 150
              = (if 0 \<le> (150::real) then \<lfloor>150::real\<rfloor> else \<lceil>150::real\<rceil>)"
    by (rule mp [OF spec [OF conjunct2 [OF conjunct2 [OF conjunct2 [OF conjunct2 [OF t]]]]] r])
  have c: "astype_int demo_platform (det_x1 demo_centre * 600) = 150"
    unfolding x c0 by simp
  show ?thesis by (intro conjI demo_detect_centre a b lo hi c)
qed

subsection \<open>C9: two runs\<close>

text \<open>
  C9.  The two networks are functions of their input blob here, which is the deterministic
  inference that the claim takes as given, and the module does no arithmetic on the
  embedder's output: it flattens the array and stores it.  What the claim says of the
  module is then this.  Take a run that completes, and a second run on the same files and
  the same networks in which the listing comes in another order.  The second run
  completes as well, and its (embedding, name) pairs are those of the first, each as often
  as there, in some order.
\<close>

theorem runs_agree_up_to_order:
  assumes "mset (L (DATASET self)) = mset (list_images P (DATASET self))"
    and "ProcessFolders P self d1 = (Inr data1, evs1)"
  shows "\<exists>data2 evs2.
           ProcessFolders (P\<lparr> list_images := L \<rparr>) self d2 = (Inr data2, evs2) \<and>
           length (embeddings data2) = length (names data2) \<and>
           mset (zip (embeddings data2) (names data2))
             = mset (zip (embeddings data1) (names data1))"
proof -
  let ?P2 = "P\<lparr> list_images := L \<rparr>"
  let ?ps1 = "list_images P (DATASET self)"
  let ?ps2 = "L (DATASET self)"
  let ?init = "\<lparr> knownEmbeddings = [], knownNames = [], total = 1 \<rparr>"
  from ProcessFolders_InrD [OF assms(2)] obtain a1 e1 where
    bl1: "batch_loop P self ?ps1 ?init = (Inr a1, e1)" and
    d1: "data1 = \<lparr> embeddings = knownEmbeddings a1, names = knownNames a1 \<rparr>" and
    w: "writable P (EMBEDDING_OUTPUT self)" by blast
  have "set ?ps2 = set ?ps1" using assms(1) by (rule mset_eq_setD)
  then have "\<forall>p \<in> set ?ps2. \<exists>r. fst (ProcessImage P self p) = Inr r"
    using batch_loop_all_returned [OF bl1] by blast
  from batch_loop_completes [OF this, of ?init] obtain a2 e2 where
    bl2: "batch_loop P self ?ps2 ?init = (Inr a2, e2)" by blast
  have bl2': "batch_loop ?P2 self (list_images ?P2 (DATASET self)) ?init = (Inr a2, e2)"
    using bl2 by (simp add: batch_loop_listing)
  have w2: "writable ?P2 (EMBEDDING_OUTPUT self)" using w by simp
  let ?data2 = "\<lparr> embeddings = knownEmbeddings a2, names = knownNames a2 \<rparr>"
  have run2: "ProcessFolders ?P2 self d2 =
      (Inr ?data2, e2 @ [FileWrite (EMBEDDING_OUTPUT self) ?data2])"
    by (rule ProcessFolders_InrI [OF bl2' w2])
  have o1: "length (knownEmbeddings a1) = length (knownNames a1) \<and>
            zip (knownEmbeddings a1) (knownNames a1) = concat (map (image_output P self) ?ps1)"
    using batch_loop_outputs [OF _ bl1] by simp
  have o2: "length (knownEmbeddings a2) = length (knownNames a2) \<and>
            zip (knownEmbeddings a2) (knownNames a2) = concat (map (image_output P self) ?ps2)"
    using batch_loop_outputs [OF _ bl2] by simp
  have "mset (zip (embeddings ?data2) (names ?data2)) = mset (zip (embeddings data1) (names data1))"
    using o1 o2 d1 mset_concat_map [OF assms(1), of "image_output P self"] by simp
  with run2 o2 show ?thesis by auto
qed

theorem runs_agree_up_to_order_witness:
  "mset [''faces/bob/b.png'', ''faces/alice/a.png'']
     = mset (list_images demo_platform (DATASET (demo_extractor ''faces'' [demo_centre]))) \<and>
   fst (ProcessFolders demo_platform (demo_extractor ''faces'' [demo_centre]) ''faces'')
     = Inr \<lparr> embeddings = [[200, 300], [150, 300]], names = [''alice'', ''bob''] \<rparr> \<and>
   (\<exists>data2 evs2.
      ProcessFolders
        (demo_platform\<lparr> list_images := \<lambda>d. [''faces/bob/b.png'', ''faces/alice/a.png''] \<rparr>)
        (demo_extractor ''faces'' [demo_centre]) ''faces'' = (Inr data2, evs2) \<and>
      length (embeddings data2) = length (names data2) \<and>
      mset (zip (embeddings data2) (names data2))
        = mset [([200, 300], ''alice''), ([150, 300], ''bob'')])"
proof -
  let ?S = "demo_extractor ''faces'' [demo_centre]"
  let ?L = "\<lambda>d::string. [''faces/bob/b.png'', ''faces/alice/a.png'']"
  have h1: "mset (?L (DATASET ?S)) = mset (list_images demo_platform (DATASET ?S))"
    by (simp add: demo_faces_listing)
  note t = runs_agree_up_to_order [OF h1 demo_centre_batch [of "''faces''"], of "''faces''"]
  have f: "fst (ProcessFolders demo_platform ?S ''faces'')
     = Inr \<lparr> embeddings = [[200, 300], [150, 300]], names = [''alice'', ''bob''] \<rparr>"
    by (simp add: demo_centre_batch)
  from t have "\<exists>data2 evs2.
      ProcessFolders (demo_platform\<lparr> list_images := ?L \<rparr>) ?S ''faces'' = (Inr data2, evs2) \<and>
      length (embeddings data2) = length (names data2) \<and>
      mset (zip (embeddings data2) (names data2))
        = mset [([200, 300], ''alice''), ([150, 300], ''bob'')]"
    by simp
  with h1 f show ?thesis by (intro conjI)
qed

subsection \<open>C10: boxes that are inverted or leave the image\<close>

text \<open>
  C10 as stated fails.  A slice is clamped to the image, so a box that leaves the image on
  the right keeps its part inside: columns 100 to 700 of an image 600 wide are 500
  columns, and the embedder runs.  A negative end counts from the far edge, so the
  inverted pair \<open>startX = 5\<close>, \<open>endX = -1\<close> selects 594 columns, and the embedder runs.
\<close>

theorem box_outside_image_counterexample:
  "ncols (solid 600 600) = 600 \<and>
   ExtractEmbedding demo_platform (demo_extractor ''faces'' []) (solid 600 600) 100 700 100 500 =
     (Inr (Some [[400, 500]]), [EmbedderForward [400, 500]]) \<and>
   ExtractEmbedding demo_platform (demo_extractor ''faces'' []) (solid 600 600) 5 (- 1) 100 500 =
     (Inr (Some [[400, 594]]), [EmbedderForward [400, 594]])"
  by (simp add: demo_simps)

text \<open>
  C10, amended.  \<open>ExtractEmbedding\<close> does not raise on any box.  It returns \<open>None\<close>
  without calling the embedder exactly when the sliced region is less than 20 pixels wide
  or high, and otherwise calls the embedder on that region.  When the coordinates of one
  axis are non-negative and degenerate or inverted (\<open>0 \<le> endX \<le> startX\<close> or
  \<open>0 \<le> endY \<le> startY\<close>) the region is empty, so the method returns \<open>None\<close>.  A box
  with non-negative, ordered coordinates is clamped to the image: the region has
  \<open>min endX W - min startX W\<close> columns and \<open>min endY H - min startY H\<close> rows.  So a box
  that leaves the image is rejected when one of these two numbers is below 20, and is
  embedded otherwise.
\<close>

theorem box_clamped_to_image:
  "(\<exists>v evs. ExtractEmbedding P self img startX endX startY endY = (Inr v, evs)) \<and>
   ExtractEmbedding P self img startX endX startY endY =
     (if ncols (crop img startY endY startX endX) < 20
           \<or> nrows (crop img startY endY startX endX) < 20
      then (Inr None, [])
      else (Inr (Some (embedder self (face_blob P (crop img startY endY startX endX)))),
            [EmbedderForward (face_blob P (crop img startY endY startX endX))])) \<and>
   ((0 \<le> startX \<and> 0 \<le> endX \<and> endX \<le> startX) \<or>
    (0 \<le> startY \<and> 0 \<le> endY \<and> endY \<le> startY) \<longrightarrow>
      ExtractEmbedding P self img startX endX startY endY = (Inr None, [])) \<and>
   (0 \<le> startX \<and> startX \<le> endX \<longrightarrow>
      ncols (crop img startY endY startX endX)
        = min (nat endX) (ncols img) - min (nat startX) (ncols img)) \<and>
   (0 \<le> startY \<and> startY \<le> endY \<longrightarrow>
      nrows (crop img startY endY startX endX)
        = min (nat endY) (nrows img) - min (nat startY) (nrows img)) \<and>
   (0 \<le> startX \<and> startX \<le> endX \<and> 0 \<le> startY \<and> startY \<le> endY \<longrightarrow>
      ExtractEmbedding P self img startX endX startY endY =
        (if min (nat endX) (ncols img) - min (nat startX) (ncols img) < 20
              \<or> min (nat endY) (nrows img) - min (nat startY) (nrows img) < 20
         then (Inr None, [])
         else (Inr (Some (embedder self (face_blob P (crop img startY endY startX endX)))),
               [EmbedderForward (face_blob P (crop img startY endY startX endX))])))"
proof -
  have char: "ExtractEmbedding P self img startX endX startY endY =
     (if ncols (crop img startY endY startX endX) < 20
           \<or> nrows (crop img startY endY startX endX) < 20
      then (Inr None, [])
      else (Inr (Some (embedder self (face_blob P (crop img startY endY startX endX)))),
            [EmbedderForward (face_blob P (crop img startY endY startX endX))]))"
    unfolding ExtractEmbedding_char by (simp add: crop_def)
  have ex: "\<exists>v evs. ExtractEmbedding P self img startX endX startY endY = (Inr v, evs)"
    unfolding char
    by (cases "ncols (crop img startY endY startX endX) < 20
           \<or> nrows (crop img startY endY startX endX) < 20") simp_all
  have cols: "ncols (crop img startY endY startX endX)
        = min (nat endX) (ncols img) - min (nat startX) (ncols img)"
    if "0 \<le> startX \<and> startX \<le> endX"
    using that by (simp add: crop_def slice_len_clamped)
  have rows: "nrows (crop img startY endY startX endX)
        = min (nat endY) (nrows img) - min (nat startY) (nrows img)"
    if "0 \<le> startY \<and> startY \<le> endY"
    using that by (simp add: crop_def slice_len_clamped)
  have deg: "ExtractEmbedding P self img startX endX startY endY = (Inr None, [])"
    if a: "(0 \<le> startX \<and> 0 \<le> endX \<and> endX \<le> startX) \<or>
           (0 \<le> startY \<and> 0 \<le> endY \<and> endY \<le> startY)"
  proof -
    have "ncols (crop img startY endY startX endX) = 0
            \<or> nrows (crop img startY endY startX endX) = 0"
    proof (rule disjE [OF a])
      assume "0 \<le> startX \<and> 0 \<le> endX \<and> endX \<le> startX"
      then have "ncols (crop img startY endY startX endX) = 0"
        by (simp add: crop_def slice_len_inverted)
      then show ?thesis by (rule disjI1)
    next
      assume "0 \<le> startY \<and> 0 \<le> endY \<and> endY \<le> startY"
      then have "nrows (crop img startY endY startX endX) = 0"
        by (simp add: crop_def slice_len_inverted)
      then show ?thesis by (rule disjI2)
    qed
    then have "ncols (crop img startY endY startX endX) < 20
                 \<or> nrows (crop img startY endY startX endX) < 20"
      by presburger
    then show ?thesis unfolding char by (simp only: if_True)
  qed
  have both: "ExtractEmbedding P self img startX endX startY endY =
        (if min (nat endX) (ncols img) - min (nat startX) (ncols img) < 20
              \<or> min (nat endY) (nrows img) - min (nat startY) (nrows img) < 20
         then (Inr None, [])
         else (Inr (Some (embedder self (face_blob P (crop img startY endY startX endX)))),
               [EmbedderForward (face_blob P (crop img startY endY startX endX))]))"
    if b: "0 \<le> startX \<and> startX \<le> endX \<and> 0 \<le> startY \<and> startY \<le> endY"
  proof -
    from b have x: "0 \<le> startX \<and> startX \<le> endX" and y: "0 \<le> startY \<and> startY \<le> endY"
      by simp_all
    show ?thesis
      unfolding cols [OF x, symmetric] rows [OF y, symmetric] by (rule char)
  qed
  from ex char deg cols rows both show ?thesis by (intro conjI impI)
qed

theorem box_clamped_to_image_witness:
  "(0 \<le> (300::int) \<and> 0 \<le> (100::int) \<and> (100::int) \<le> 300) \<and>
   ExtractEmbedding demo_platform (demo_extractor ''faces'' []) (solid 600 600) 300 100 100 500
     = (Inr None, []) \<and>
   (0 \<le> (200::int) \<and> (200::int) \<le> 650 \<and> 0 \<le> (50::int) \<and> (50::int) \<le> 620) \<and>
   ncols (crop (solid 600 600) 50 620 200 650) = 400 \<and>
   nrows (crop (solid 600 600) 50 620 200 650) = 550 \<and>
   ExtractEmbedding demo_platform (demo_extractor ''faces'' []) (solid 600 600) 200 650 50 620
     = (Inr (Some [[550, 400]]), [EmbedderForward [550, 400]]) \<and>
   (0 \<le> (590::int) \<and> (590::int) \<le> 700 \<and> 0 \<le> (100::int) \<and> (100::int) \<le> 500) \<and>
   ExtractEmbedding demo_platform (demo_extractor ''faces'' []) (solid 600 600) 590 700 100 500
     = (Inr None, [])"
proof -
  let ?S = "demo_extractor ''faces'' []"
  let ?I = "solid 600 600"
  have n: "ncols ?I = 600" and m: "nrows ?I = 600"
    by (simp_all add: solid_def)
  have h1: "(0 \<le> (300::int) \<and> 0 \<le> (100::int) \<and> (100::int) \<le> 300) \<or>
            (0 \<le> (100::int) \<and> 0 \<le> (500::int) \<and> (500::int) \<le> 100)"
    by simp
  have h1': "0 \<le> (300::int) \<and> 0 \<le> (100::int) \<and> (100::int) \<le> 300" by simp
  have h2: "0 \<le> (200::int) \<and> (200::int) \<le> 650 \<and> 0 \<le> (50::int) \<and> (50::int) \<le> 620"
    by simp
  have h2x: "0 \<le> (200::int) \<and> (200::int) \<le> 650" by simp
  have h2y: "0 \<le> (50::int) \<and> (50::int) \<le> 620" by simp
  have h3: "0 \<le> (590::int) \<and> (590::int) \<le> 700 \<and> 0 \<le> (100::int) \<and> (100::int) \<le> 500"
    by simp
  note t1 = box_clamped_to_image [of demo_platform ?S ?I 300 100 100 500]
  note t2 = box_clamped_to_image [of demo_platform ?S ?I 200 650 50 620]
  note t3 = box_clamped_to_image [of demo_platform ?S ?I 590 700 100 500]
  have a: "ExtractEmbedding demo_platform ?S ?I 300 100 100 500 = (Inr None, [])"
    by (rule mp [OF conjunct1 [OF conjunct2 [OF conjunct2 [OF t1]]] h1])
  have c: "ncols (crop ?I 50 620 200 650) = min (nat 650) (ncols ?I) - min (nat 200) (ncols ?I)"
    by (rule mp [OF conjunct1 [OF conjunct2 [OF conjunct2 [OF conjunct2 [OF t2]]]] h2x])
  have r: "nrows (crop ?I 50 620 200 650) = min (nat 620) (nrows ?I) - min (nat 50) (nrows ?I)"
    by (rule mp [OF conjunct1 [OF conjunct2 [OF conjunct2 [OF conjunct2 [OF conjunct2 [OF t2]]]]] h2y])
  have c': "ncols (crop ?I 50 620 200 650) = 400" unfolding c n by simp
  have r': "nrows (crop ?I 50 620 200 650) = 550" unfolding r m by simp
  have b0: "ExtractEmbedding demo_platform ?S ?I 200 650 50 620 =
        (if min (nat 650) (ncols ?I) - min (nat 200) (ncols ?I) < 20
              \<or> min (nat 620) (nrows ?I) - min (nat 50) (nrows ?I) < 20
         then (Inr None, [])
         else (Inr (Some (embedder ?S (face_blob demo_platform (crop ?I 50 620 200 650)))),
               [EmbedderForward (face_blob demo_platform (crop ?I 50 620 200 650))]))"
    by (rule mp [OF conjunct2 [OF conjunct2 [OF conjunct2 [OF conjunct2 [OF conjunct2 [OF t2]]]]] h2])
  have b: "ExtractEmbedding demo_platform ?S ?I 200 650 50 620
     = (Inr (Some [[550, 400]]), [EmbedderForward [550, 400]])"
    unfolding b0 n m demo_face_blob demo_embedder c' r' by simp
  have d0: "ExtractEmbedding demo_platform ?S ?I 590 700 100 500 =
        (if min (nat 700) (ncols ?I) - min (nat 590) (ncols ?I) < 20
              \<or> min (nat 500) (nrows ?I) - min (nat 100) (nrows ?I) < 20
         then (Inr None, [])
         else (Inr (Some (embedder ?S (face_blob demo_platform (crop ?I 100 500 590 700)))),
               [EmbedderForward (face_blob demo_platform (crop ?I 100 500 590 700))]))"
    by (rule mp [OF conjunct2 [OF conjunct2 [OF conjunct2 [OF conjunct2 [OF conjunct2 [OF t3]]]]] h3])
  have d: "ExtractEmbedding demo_platform ?S ?I 590 700 100 500 = (Inr None, [])"
    unfolding d0 n m by simp
  show ?thesis by (intro conjI h1' a h2 c' r' b h3 d)
qed

end
